theory Spec2Isabelle
  imports Complex_Main
begin

section \<open>Numbers and exceptions\<close>

text \<open>
  The program is \<^verbatim>\<open>run_inference.py\<close>. Its numbers are numpy and Python floats. The
  model keeps a finite float as the real number it stands for and adds the three special
  values a float can take, because the program's failure on a non-positive rate goes
  through them: \<^verbatim>\<open>np.log10(0)\<close> is \<open>-inf\<close>, \<^verbatim>\<open>np.log10\<close> of a negative number is \<open>nan\<close>,
  and \<^verbatim>\<open>int\<close> raises on either. The precision selection takes the ceiling of a
  logarithm, so that the rounding of a float operation can change its result; there the
  rounded operations are parameters of the model (\<open>float_ops\<close>, below), and the pipeline
  runs on them.

  The exceptions are the Python exception classes the program can raise or meet.
  \<open>NumericDegeneracy\<close> is the one exception: it is the diagnostic class that section 7 of
  the specification asks for; no line of the source raises it.
\<close>

datatype error =
    ValueError
  | OverflowError
  | IndexError
  | AssertionError
  | UnboundLocalError
  | ZeroDivisionError
  | FileNotFoundError
  | LibraryError
  | OtherError string
  | NumericDegeneracy

datatype np_float = Finite real | PosInf | NegInf | NaN

text \<open>\<^verbatim>\<open>np.log10\<close> on a finite float, with the logarithm taken exactly.\<close>

definition np_log10 :: "real \<Rightarrow> np_float" where
  "np_log10 x = (if 0 < x then Finite (log 10 x) else if x = 0 then NegInf else NaN)"

text \<open>Unary minus and \<^verbatim>\<open>np.ceil\<close>.\<close>

fun np_neg :: "np_float \<Rightarrow> np_float" where
  "np_neg (Finite x) = Finite (- x)"
| "np_neg PosInf = NegInf"
| "np_neg NegInf = PosInf"
| "np_neg NaN = NaN"

fun np_ceil :: "np_float \<Rightarrow> np_float" where
  "np_ceil (Finite x) = Finite (of_int \<lceil>x\<rceil>)"
| "np_ceil PosInf = PosInf"
| "np_ceil NegInf = NegInf"
| "np_ceil NaN = NaN"

text \<open>
  \<^verbatim>\<open>int(x)\<close> on a float truncates toward zero; it raises \<^verbatim>\<open>OverflowError\<close> on an infinity
  and \<^verbatim>\<open>ValueError\<close> on \<open>nan\<close>.
\<close>

fun py_int :: "np_float \<Rightarrow> error + int" where
  "py_int (Finite x) = Inr (if 0 \<le> x then \<lfloor>x\<rfloor> else \<lceil>x\<rceil>)"
| "py_int PosInf = Inl OverflowError"
| "py_int NegInf = Inl OverflowError"
| "py_int NaN = Inl ValueError"

text \<open>
  \<^verbatim>\<open>np.min\<close> of an array: \<open>nan\<close> wins over everything, \<open>-inf\<close> is below every number, and an
  empty array raises \<^verbatim>\<open>ValueError\<close> (a reduction with no identity).
\<close>

fun np_minimum :: "np_float \<Rightarrow> np_float \<Rightarrow> np_float" where
  "np_minimum NaN _ = NaN"
| "np_minimum _ NaN = NaN"
| "np_minimum NegInf _ = NegInf"
| "np_minimum _ NegInf = NegInf"
| "np_minimum PosInf y = y"
| "np_minimum x PosInf = x"
| "np_minimum (Finite x) (Finite y) = Finite (min x y)"

definition np_min :: "np_float list \<Rightarrow> error + np_float" where
  "np_min xs = (case xs of [] \<Rightarrow> Inl ValueError | x # rest \<Rightarrow> Inr (foldl np_minimum x rest))"

text \<open>
  \<^verbatim>\<open>np.quantile(a, q)\<close> with the default linear interpolation: on the sorted array the
  virtual index is \<open>q (n - 1)\<close>, and the result interpolates between its two neighbours.
  On an empty array there is nothing to take the neighbours from, and the call raises
  (\<^verbatim>\<open>IndexError\<close>, from the indexing inside numpy). The interpolation is taken exactly.
\<close>

definition np_quantile :: "real list \<Rightarrow> real \<Rightarrow> error + real" where
  "np_quantile a q =
     (if a = [] then Inl IndexError
      else
        let s = sort a;
            n = length a;
            virtual_index = q * (real n - 1);
            lo = nat \<lfloor>virtual_index\<rfloor>;
            hi = min (lo + 1) (n - 1);
            gamma = virtual_index - real lo
        in Inr (s ! lo + (s ! hi - s ! lo) * gamma))"

section \<open>Precision selection (lines 25 to 35 of \<open>run\<close>)\<close>

text \<open>
  \<^verbatim>\<open>
  rho = params.rec_rate[1:]
  base_rec_prob = np.quantile(rho, 0.5)
  if params.precision is None:
      min_rho = int(np.ceil(-np.min(np.log10(rho))))
      av_min = int(np.ceil(-np.log10(
          min(1, params.ma_mut_rate, params.ms_mut_rate) * base_rec_prob)))
      precision = max(min_rho, av_min) + 3
  else:
      precision = params.precision
  \<close>
  The function returns the pair \<open>(base_rec_prob, precision)\<close>, or the exception of the first
  line that raises. \<open>select_precision\<close> is these lines in exact arithmetic, which is how
  the formulas of the specification read; \<open>select_precision_fl\<close>, below, is these lines
  with numpy's rounded operations, and it is the one that \<open>run\<close> calls.
\<close>

definition select_precision ::
  "real list \<Rightarrow> real \<Rightarrow> real \<Rightarrow> int option \<Rightarrow> error + (real \<times> int)" where
  "select_precision rec_rate ma_mut_rate ms_mut_rate precision_override =
     (let rho = tl rec_rate in
      case np_quantile rho (1 / 2) of
        Inl e \<Rightarrow> Inl e
      | Inr base_rec_prob \<Rightarrow>
          (case precision_override of
             Some p \<Rightarrow> Inr (base_rec_prob, p)
           | None \<Rightarrow>
               (case np_min (map np_log10 rho) of
                  Inl e \<Rightarrow> Inl e
                | Inr m \<Rightarrow>
                    (case py_int (np_ceil (np_neg m)) of
                       Inl e \<Rightarrow> Inl e
                     | Inr min_rho \<Rightarrow>
                         (case py_int (np_ceil (np_neg (np_log10
                                  (min 1 (min ma_mut_rate ms_mut_rate) * base_rec_prob)))) of
                            Inl e \<Rightarrow> Inl e
                          | Inr av_min \<Rightarrow> Inr (base_rec_prob, max min_rho av_min + 3))))))"

text \<open>
  The specification's median (section 4.2): the middle element of the sorted values, or the
  mean of the two middle elements when their number is even.
\<close>

definition median :: "real list \<Rightarrow> real" where
  "median xs =
     (let s = sort xs; n = length xs
      in if odd n then s ! (n div 2) else (s ! (n div 2 - 1) + s ! (n div 2)) / 2)"

text \<open>
  The definitions above compute in exact arithmetic. numpy rounds: \<^verbatim>\<open>np.log10\<close> returns a
  float next to the logarithm (exactly -1.0 for the float just below 0.1, where the
  logarithm itself is below -1), the product of two floats is rounded (down to 0.0 when it
  is small enough), and so is the interpolation of \<^verbatim>\<open>np.quantile\<close>. Since the selection takes
  the ceiling of a logarithm, rounding can change its result by one. The lines of the
  program are therefore given with the three rounded operations as parameters, a float
  being the real number it stands for: \<open>fl_log10\<close> is \<^verbatim>\<open>np.log10\<close> on a positive float,
  \<open>fl_mul\<close> the float product and \<open>fl_lerp a b gamma\<close> the interpolation between \<open>a\<close> and
  \<open>b\<close>. Minimum, negation, ceiling and the conversion to an integer are exact on floats.
  With the exact operations these definitions are the ones above.
\<close>

record float_ops =
  fl_log10 :: "real \<Rightarrow> real"
  fl_mul :: "real \<Rightarrow> real \<Rightarrow> real"
  fl_lerp :: "real \<Rightarrow> real \<Rightarrow> real \<Rightarrow> real"

definition exact_ops :: float_ops where
  "exact_ops =
     \<lparr>fl_log10 = log 10, fl_mul = (*), fl_lerp = (\<lambda>a b gamma. a + (b - a) * gamma)\<rparr>"

definition np_log10_fl :: "float_ops \<Rightarrow> real \<Rightarrow> np_float" where
  "np_log10_fl ops x =
     (if 0 < x then Finite (fl_log10 ops x) else if x = 0 then NegInf else NaN)"

definition np_quantile_fl :: "float_ops \<Rightarrow> real list \<Rightarrow> real \<Rightarrow> error + real" where
  "np_quantile_fl ops a q =
     (if a = [] then Inl IndexError
      else
        let s = sort a;
            n = length a;
            virtual_index = q * (real n - 1);
            lo = nat \<lfloor>virtual_index\<rfloor>;
            hi = min (lo + 1) (n - 1);
            gamma = virtual_index - real lo
        in Inr (fl_lerp ops (s ! lo) (s ! hi) gamma))"

definition select_precision_fl ::
  "float_ops \<Rightarrow> real list \<Rightarrow> real \<Rightarrow> real \<Rightarrow> int option \<Rightarrow> error + (real \<times> int)" where
  "select_precision_fl ops rec_rate ma_mut_rate ms_mut_rate precision_override =
     (let rho = tl rec_rate in
      case np_quantile_fl ops rho (1 / 2) of
        Inl e \<Rightarrow> Inl e
      | Inr base_rec_prob \<Rightarrow>
          (case precision_override of
             Some p \<Rightarrow> Inr (base_rec_prob, p)
           | None \<Rightarrow>
               (case np_min (map (np_log10_fl ops) rho) of
                  Inl e \<Rightarrow> Inl e
                | Inr m \<Rightarrow>
                    (case py_int (np_ceil (np_neg m)) of
                       Inl e \<Rightarrow> Inl e
                     | Inr min_rho \<Rightarrow>
                         (case py_int (np_ceil (np_neg (np_log10_fl ops
                                  (fl_mul ops (min 1 (min ma_mut_rate ms_mut_rate))
                                     base_rec_prob)))) of
                            Inl e \<Rightarrow> Inl e
                          | Inr av_min \<Rightarrow> Inr (base_rec_prob, max min_rho av_min + 3))))))"

section \<open>Coordinate mapping (\<open>physical_to_genetic\<close> and \<open>setup_sample_file\<close>)\<close>

text \<open>
  The numpy array functions the two functions use. \<^verbatim>\<open>np.diff\<close> gives the successive
  differences (one fewer than the elements, none for fewer than two), \<^verbatim>\<open>np.cumsum\<close> the
  running sums, and the elementwise product broadcasts an array of length one and raises
  \<^verbatim>\<open>ValueError\<close> on any other length mismatch.
\<close>

fun np_diff :: "real list \<Rightarrow> real list" where
  "np_diff (a # b # xs) = (b - a) # np_diff (b # xs)"
| "np_diff _ = []"

fun np_cumsum_from :: "real \<Rightarrow> real list \<Rightarrow> real list" where
  "np_cumsum_from acc [] = []"
| "np_cumsum_from acc (x # xs) = (acc + x) # np_cumsum_from (acc + x) xs"

definition np_cumsum :: "real list \<Rightarrow> real list" where
  "np_cumsum xs = np_cumsum_from 0 xs"

definition np_multiply :: "real list \<Rightarrow> real list \<Rightarrow> error + real list" where
  "np_multiply xs ys =
     (if length xs = length ys then Inr (map2 (*) xs ys)
      else if length xs = 1 then Inr (map (\<lambda>y. hd xs * y) ys)
      else if length ys = 1 then Inr (map (\<lambda>x. x * hd ys) xs)
      else Inl ValueError)"

text \<open>
  \<^verbatim>\<open>np.interp(x, xp, fp)\<close> for increasing \<open>xp\<close> (its documented precondition): a query left
  of the first sample point gets the first value, a query at or right of the last one the
  last value, and a query in the interval from \<open>xp[j]\<close> to \<open>xp[j+1]\<close> gets
  \<open>slope * (x - xp[j]) + fp[j]\<close>. Empty sample points and arrays of different lengths raise
  \<^verbatim>\<open>ValueError\<close>.
\<close>

fun interp_at :: "real \<Rightarrow> (real \<times> real) list \<Rightarrow> real" where
  "interp_at x [] = 0"
| "interp_at x [(x0, f0)] = f0"
| "interp_at x ((x0, f0) # (x1, f1) # rest) =
     (if x < x1 then (f1 - f0) / (x1 - x0) * (x - x0) + f0
      else interp_at x ((x1, f1) # rest))"

definition np_interp :: "real list \<Rightarrow> real list \<Rightarrow> real list \<Rightarrow> error + real list" where
  "np_interp x xp fp =
     (if xp = [] then Inl ValueError
      else if length fp \<noteq> length xp then Inl ValueError
      else Inr (map (\<lambda>v. if v < hd xp then hd fp else interp_at v (zip xp fp)) x))"

text \<open>
  A recombination map is what the program reads from it: its breakpoint positions and its
  rates, one rate per breakpoint (the rate of the interval that starts there).
  \<^verbatim>\<open>
  def physical_to_genetic(recombination_map, input_physical_positions):
      map_pos = recombination_map.get_positions()
      map_rates = recombination_map.get_rates()
      map_genetic_positions = np.insert(np.cumsum(np.diff(map_pos) * map_rates[:-1]), 0, 0)
      return np.interp(input_physical_positions, map_pos, map_genetic_positions)
  \<close>
\<close>

record recombination_map =
  get_positions :: "real list"
  get_rates :: "real list"

definition physical_to_genetic :: "recombination_map \<Rightarrow> real list \<Rightarrow> error + real list" where
  "physical_to_genetic recombination_map input_physical_positions =
     (let map_pos = get_positions recombination_map;
          map_rates = get_rates recombination_map
      in case np_multiply (np_diff map_pos) (butlast map_rates) of
           Inl e \<Rightarrow> Inl e
         | Inr steps \<Rightarrow>
             (let map_genetic_positions = 0 # np_cumsum steps
              in np_interp input_physical_positions map_pos map_genetic_positions))"

text \<open>
  The specification's genetic position (section 4.1) of a physical position \<open>x\<close> over the
  breakpoints \<open>(position, rate)\<close>: every map interval contributes its rate times the length
  of its part that lies before \<open>x\<close>. That is the whole interval for an interval that
  precedes \<open>x\<close>, nothing for an interval after \<open>x\<close>, and the part up to \<open>x\<close> for the
  interval that holds \<open>x\<close>: the cumulative sum, interpolated linearly inside an interval.
\<close>

fun genetic_position :: "(real \<times> real) list \<Rightarrow> real \<Rightarrow> real" where
  "genetic_position ((p0, r0) # (p1, r1) # rest) x =
     r0 * max 0 (min x p1 - p0) + genetic_position ((p1, r1) # rest) x"
| "genetic_position _ x = 0"

text \<open>
  The sample data file, as far as the program reads it: its path, the site positions, the
  inference flag of each site and the sequence length. The file format stores the flags
  as unsigned 8-bit integers, 0 or 1, and the program indexes with them as they are
  (\<open>sites_position[:][sites_inference]\<close>, with no comparison to 1 and no conversion to
  Booleans). numpy takes an integer array as a list of indices: the result has one entry
  per flag, the position at index 0 for a flag 0 and the position at index 1 for a flag 1,
  and an index beyond the array raises \<^verbatim>\<open>IndexError\<close>.
  A float division by zero gives an infinity or \<open>nan\<close>, with a warning only.
\<close>

record sample_data =
  path :: "string option"
  sites_position :: "real list"
  sites_inference :: "nat list"
  sequence_length :: real

definition np_take :: "real list \<Rightarrow> nat list \<Rightarrow> error + real list" where
  "np_take xs indices =
     (if \<exists>i\<in>set indices. length xs \<le> i then Inl IndexError
      else Inr (map (\<lambda>i. xs ! i) indices))"

definition np_divide :: "real \<Rightarrow> real \<Rightarrow> np_float" where
  "np_divide x y =
     (if y \<noteq> 0 then Finite (x / y)
      else if x = 0 then NaN else if 0 < x then PosInf else NegInf)"

text \<open>
  \<^verbatim>\<open>str.endswith\<close>, and \<^verbatim>\<open>re.search(r'(chr\d+)', filename)\<close>: the leftmost place where
  \<open>chr\<close> is followed by a digit, with all the digits that follow.
\<close>

definition endswith :: "string \<Rightarrow> string \<Rightarrow> bool" where
  "endswith s suffix =
     (length suffix \<le> length s \<and> drop (length s - length suffix) s = suffix)"

definition is_digit :: "char \<Rightarrow> bool" where
  "is_digit c = (c \<in> set ''0123456789'')"

definition match_chr :: "string \<Rightarrow> string option" where
  "match_chr s =
     (if take 3 s = ''chr'' \<and> takeWhile is_digit (drop 3 s) \<noteq> []
      then Some (''chr'' @ takeWhile is_digit (drop 3 s)) else None)"

fun re_search_chr :: "string \<Rightarrow> string option" where
  "re_search_chr [] = None"
| "re_search_chr (c # cs) =
     (case match_chr (c # cs) of Some m \<Rightarrow> Some m | None \<Rightarrow> re_search_chr cs)"

text \<open>
  The collaborators of \<open>setup_sample_file\<close>: loading the sample file, and the genetic map
  service (\<open>get_species\<close>, \<open>get_genetic_map\<close>, \<open>is_cached\<close>, \<open>download\<close> and
  \<open>get_chromosome_map\<close> taken together), each of which can raise.
  \<^verbatim>\<open>
  def setup_sample_file(filename):
      if not filename.endswith(".samples"):
          raise ValueError("Sample data file must end with '.samples'")
      sd = tsinfer.load(filename)
      match = re.search(r'(chr\d+)', filename)
      if match:
          chr = match.group(1)
          map = stdpopsim.get_species("HomSap").get_genetic_map(id="HapMapII_GRCh37")
          if not map.is_cached():
              map.download()
          chr_map = map.get_chromosome_map(chr)
          inference_distances = physical_to_genetic(
              chr_map,
              sd.sites_position[:][sd.sites_inference])
          rho = np.concatenate(([0.0], np.diff(inference_distances)))
      else:
          inference_distances = sd.sites_position[:][sd.sites_inference]
          rho = np.concatenate(
              ([0.0], np.diff(inference_distances)/sd.sequence_length))
      return sd, rho, filename[:-len(".samples")], None
  \<close>
  The model returns the first three components; the fourth is the constant \<open>None\<close>.
\<close>

record services =
  tsinfer_load :: "string \<Rightarrow> error + sample_data"
  get_chromosome_map :: "string \<Rightarrow> error + recombination_map"

definition setup_sample_file ::
  "services \<Rightarrow> string \<Rightarrow> error + (sample_data \<times> np_float list \<times> string)" where
  "setup_sample_file srv filename =
     (if \<not> endswith filename ''.samples'' then Inl ValueError
      else
        case tsinfer_load srv filename of
          Inl e \<Rightarrow> Inl e
        | Inr sd \<Rightarrow>
            (case re_search_chr filename of
               Some chr \<Rightarrow>
                 (case get_chromosome_map srv chr of
                    Inl e \<Rightarrow> Inl e
                  | Inr chr_map \<Rightarrow>
                      (case np_take (sites_position sd) (sites_inference sd) of
                         Inl e \<Rightarrow> Inl e
                       | Inr selected \<Rightarrow>
                           (case physical_to_genetic chr_map selected of
                              Inl e \<Rightarrow> Inl e
                            | Inr inference_distances \<Rightarrow>
                                Inr (sd,
                                     Finite 0 # map Finite (np_diff inference_distances),
                                     take (length filename - length ''.samples'') filename))))
             | None \<Rightarrow>
                 (case np_take (sites_position sd) (sites_inference sd) of
                    Inl e \<Rightarrow> Inl e
                  | Inr inference_distances \<Rightarrow>
                      Inr (sd,
                           Finite 0 # map (\<lambda>d. np_divide d (sequence_length sd))
                                        (np_diff inference_distances),
                           take (length filename - length ''.samples'') filename))))"

section \<open>The pipeline (\<open>run\<close>)\<close>

text \<open>
  \<^verbatim>\<open>
  Params = collections.namedtuple(
      "Params",
      "sample_data, rec_rate, ma_mut_rate, ms_mut_rate, precision, num_threads")

  Results = collections.namedtuple(
      "Results",
      "ma_mut, ms_mut, precision, edges, muts, num_trees, "
      "kc, mean_node_children, var_node_children, process_time, ts_size, ts_path")
  \<close>
  The rates of \<open>rec_rate\<close> and the two multipliers are finite floats. The precision of
  the results is the field \<open>res_precision\<close>, since a field name belongs to one record.
\<close>

record params =
  sample_data :: sample_data
  rec_rate :: "real list"
  ma_mut_rate :: real
  ms_mut_rate :: real
  precision :: "int option"
  num_threads :: int

record results =
  ma_mut :: real
  ms_mut :: real
  res_precision :: int
  edges :: nat
  muts :: nat
  num_trees :: nat
  kc :: "real option"
  mean_node_children :: real
  var_node_children :: real
  process_time :: real
  ts_size :: nat
  ts_path :: string

text \<open>
  A local tree of a tree sequence, as far as the statistics loop reads it: its span, the
  nodes that \<open>tree.nodes()\<close> yields and the number of children of each.
\<close>

record local_tree =
  span :: real
  nodes :: "nat list"
  num_children :: "nat \<Rightarrow> nat"

text \<open>
  The keyword arguments of the two matching calls (the progress monitor apart), and the
  calls the program makes to its collaborators, in the order it makes them.
\<close>

record match_args =
  arg_num_threads :: int
  arg_precision :: int
  arg_recombination_rate :: "real list"
  arg_mutation_rate :: real

datatype event =
    Call_generate_ancestors int "string option"
  | Call_match_ancestors match_args
  | Call_match_samples match_args
  | Call_dump string
  | Call_simplify
  | Call_load string
  | Call_kc_distance
  | Call_getsize string

text \<open>
  The collaborators of \<open>run\<close>: the inference engine (\<open>tsinfer\<close>), the tree sequence
  library (\<open>tskit\<close>), the file system, the CPU clock (its successive readings) and the
  formatting of a float by \<open>str.format\<close>, and the rounded float operations of the
  precision selection and of the two mutation rates. Every call that can raise returns a sum. The
  distance computation \<open>kc_distance\<close> reads no file: when it raises, the exception is the
  library's own, never \<^verbatim>\<open>FileNotFoundError\<close>.
\<close>

record ('anc, 'ts) engine =
  generate_ancestors :: "sample_data \<Rightarrow> int \<Rightarrow> string option \<Rightarrow> error + 'anc"
  match_ancestors :: "sample_data \<Rightarrow> 'anc \<Rightarrow> match_args \<Rightarrow> error + 'ts"
  match_samples :: "sample_data \<Rightarrow> 'ts \<Rightarrow> match_args \<Rightarrow> error + 'ts"
  dump :: "'ts \<Rightarrow> string \<Rightarrow> error + unit"
  simplify :: "'ts \<Rightarrow> error + 'ts"
  trees :: "'ts \<Rightarrow> local_tree list"
  num_edges_of :: "'ts \<Rightarrow> nat"
  num_mutations_of :: "'ts \<Rightarrow> nat"
  num_trees_of :: "'ts \<Rightarrow> nat"
  tskit_load :: "string \<Rightarrow> error + 'ts"
  kc_distance :: "'ts \<Rightarrow> 'ts \<Rightarrow> real option"
  getsize :: "string \<Rightarrow> error + nat"
  clock_reading :: "nat \<Rightarrow> real"
  str_float :: "real \<Rightarrow> string"
  arith :: float_ops

text \<open>
  A run yields the list of the calls it made and its result or exception. \<open>call\<close> makes
  one call; \<open>then_t\<close> runs the rest of the program after a step that did not raise, and
  stops at a step that did.
\<close>

type_synonym 'a traced = "event list \<times> (error + 'a)"

definition call :: "event \<Rightarrow> error + 'a \<Rightarrow> 'a traced" where
  "call ev outcome = ([ev], outcome)"

definition then_t :: "'a traced \<Rightarrow> ('a \<Rightarrow> 'b traced) \<Rightarrow> 'b traced" where
  "then_t m rest =
     (case snd m of
        Inl e \<Rightarrow> (fst m, Inl e)
      | Inr a \<Rightarrow> (fst m @ fst (rest a), snd (rest a)))"

text \<open>\<open>str\<close> of an integer, as \<open>str.format\<close> writes the precision.\<close>

fun str_nat :: "nat \<Rightarrow> string" where
  "str_nat n =
     (if n < 10 then [''0123456789'' ! n]
      else str_nat (n div 10) @ [''0123456789'' ! (n mod 10)])"

declare str_nat.simps [simp del]

definition str_int :: "int \<Rightarrow> string" where
  "str_int i = (if i < 0 then CHR ''-'' # str_nat (nat (- i)) else str_nat (nat i))"

text \<open>
  Lines 43 to 51:
  \<^verbatim>\<open>
  prefix = None
  if params.sample_data.path is not None:
      assert params.sample_data.path.endswith(".samples")
      prefix = params.sample_data.path[0:-len(".samples")]
      inf_prefix = "{}_ma{}_ms{}_p{}".format(
          prefix, params.ma_mut_rate, params.ms_mut_rate, precision)
  \<close>
  The result \<open>None\<close> stands for the state in which \<open>prefix\<close> is \<open>None\<close> and the name
  \<open>inf_prefix\<close> is not bound; otherwise the pair is \<open>(prefix, inf_prefix)\<close>.
\<close>

definition name_prefixes ::
  "(real \<Rightarrow> string) \<Rightarrow> params \<Rightarrow> int \<Rightarrow> error + (string \<times> string) option" where
  "name_prefixes fmt params precision' =
     (case path (sample_data params) of
        None \<Rightarrow> Inr None
      | Some pth \<Rightarrow>
          if \<not> endswith pth ''.samples'' then Inl AssertionError
          else
            let prefix = take (length pth - length ''.samples'') pth
            in Inr (Some (prefix,
                 prefix @ ''_ma'' @ fmt (ma_mut_rate params) @ ''_ms''
                   @ fmt (ms_mut_rate params) @ ''_p'' @ str_int precision')))"

text \<open>
  Lines 84 to 98, the statistics of the number of children:
  \<^verbatim>\<open>
  nc_sum = 0
  nc_sum_sq = 0
  nc_tot = 0
  for tree in simplified_inferred_ts.trees():
      for n in tree.nodes():
          n_children = tree.num_children(n)
          if n_children > 0:  # exclude leaves/samples
              nc_sum +=  n_children * tree.span
              nc_sum_sq += (n_children ** 2) * tree.span
              nc_tot += tree.span
  nc_mean = nc_sum/nc_tot
  nc_var = nc_sum_sq / nc_tot - (nc_mean ** 2)
  \<close>
  The division raises \<^verbatim>\<open>ZeroDivisionError\<close> when \<open>nc_tot\<close> is zero.
\<close>

definition count_node :: "local_tree \<Rightarrow> nat \<Rightarrow> real \<times> real \<times> real \<Rightarrow> real \<times> real \<times> real" where
  "count_node tree n acc =
     (case acc of (nc_sum, nc_sum_sq, nc_tot) \<Rightarrow>
        let n_children = num_children tree n
        in if n_children > 0
           then (nc_sum + real n_children * span tree,
                 nc_sum_sq + real (n_children ^ 2) * span tree,
                 nc_tot + span tree)
           else (nc_sum, nc_sum_sq, nc_tot))"

definition node_children_sums :: "local_tree list \<Rightarrow> real \<times> real \<times> real" where
  "node_children_sums ts_trees =
     fold (\<lambda>tree acc. fold (count_node tree) (nodes tree) acc) ts_trees (0, 0, 0)"

definition node_children_stats :: "local_tree list \<Rightarrow> error + (real \<times> real)" where
  "node_children_stats ts_trees =
     (case node_children_sums ts_trees of (nc_sum, nc_sum_sq, nc_tot) \<Rightarrow>
        if nc_tot = 0 then Inl ZeroDivisionError
        else
          let nc_mean = nc_sum / nc_tot;
              nc_var = nc_sum_sq / nc_tot - nc_mean ^ 2
          in Inr (nc_mean, nc_var))"

text \<open>
  Lines 104 to 107:
  \<^verbatim>\<open>
  try:
      kc = simplified_inferred_ts.kc_distance(tskit.load(prefix+".trees"))
  except FileNotFoundError:
      kc = None
  \<close>
\<close>

definition load_and_kc :: "('anc, 'ts) engine \<Rightarrow> 'ts \<Rightarrow> string \<Rightarrow> real option traced" where
  "load_and_kc eng simplified_inferred_ts truth_path =
     (case tskit_load eng truth_path of
        Inl e \<Rightarrow>
          ([Call_load truth_path], if e = FileNotFoundError then Inr None else Inl e)
      | Inr truth \<Rightarrow>
          (case kc_distance eng simplified_inferred_ts truth of
             None \<Rightarrow> ([Call_load truth_path, Call_kc_distance], Inl LibraryError)
           | Some d \<Rightarrow> ([Call_load truth_path, Call_kc_distance], Inr (Some d))))"

text \<open>
  The keyword arguments that the two matching calls share: the thread count, the precision
  and the whole rate array; the mutation rate is the one that differs.
\<close>

definition matching_args :: "params \<Rightarrow> int \<Rightarrow> real \<Rightarrow> match_args" where
  "matching_args params precision' mutation_rate =
     \<lparr>arg_num_threads = num_threads params,
      arg_precision = precision',
      arg_recombination_rate = rec_rate params,
      arg_mutation_rate = mutation_rate\<rparr>"

text \<open>
  Lines 80 to 120, after the three engine stages: the final tree sequence is written, and
  the results are computed from it.
  \<^verbatim>\<open>
  process_time = time.process_time() - start_time
  ts_path = inf_prefix + ".trees"
  inferred_ts.dump(path=ts_path)
  simplified_inferred_ts = inferred_ts.simplify()  # Remove unary nodes
  ... (lines 84 to 107, above)
  return Results(
      ma_mut=params.ma_mut_rate, ms_mut=params.ms_mut_rate, precision=precision,
      edges=inferred_ts.num_edges, muts=inferred_ts.num_mutations,
      num_trees=inferred_ts.num_trees, kc=kc,
      mean_node_children=nc_mean, var_node_children=nc_var,
      process_time=process_time, ts_size=os.path.getsize(ts_path), ts_path=ts_path)
  \<close>
\<close>

definition summarise ::
  "('anc, 'ts) engine \<Rightarrow> params \<Rightarrow> int \<Rightarrow> string \<Rightarrow> string \<Rightarrow> real \<Rightarrow> 'ts \<Rightarrow> results traced" where
  "summarise eng params precision' prefix inf_prefix start_time inferred_ts =
     (let process_time' = clock_reading eng 1 - start_time;
          ts_path' = inf_prefix @ ''.trees''
      in
      then_t (call (Call_dump ts_path') (dump eng inferred_ts ts_path'))
        (\<lambda>_.
      then_t (call Call_simplify (simplify eng inferred_ts))
        (\<lambda>simplified_inferred_ts.
      then_t ([], node_children_stats (trees eng simplified_inferred_ts))
        (\<lambda>(nc_mean, nc_var).
      then_t (load_and_kc eng simplified_inferred_ts (prefix @ ''.trees''))
        (\<lambda>kc'.
      then_t (call (Call_getsize ts_path') (getsize eng ts_path'))
        (\<lambda>ts_size'.
      ([], Inr \<lparr>ma_mut = ma_mut_rate params,
                ms_mut = ms_mut_rate params,
                res_precision = precision',
                edges = num_edges_of eng inferred_ts,
                muts = num_mutations_of eng inferred_ts,
                num_trees = num_trees_of eng inferred_ts,
                kc = kc',
                mean_node_children = nc_mean,
                var_node_children = nc_var,
                process_time = process_time',
                ts_size = ts_size',
                ts_path = ts_path'\<rparr>)))))))"

text \<open>
  The function \<open>run\<close>, lines 21 to 120, without its printing: the precision selection,
  the file names, the three engine stages (lines 52 to 79) and the summary. Reading the
  unbound name \<open>inf_prefix\<close> in the arguments of the first engine call raises
  \<^verbatim>\<open>UnboundLocalError\<close>, before the call is made. The selection and the two mutation
  rates are computed with the rounded operations \<open>arith\<close>.
  \<^verbatim>\<open>
  start_time = time.process_time()
  anc = tsinfer.generate_ancestors(
      params.sample_data,
      num_threads=params.num_threads,
      path=None if inf_prefix is None else inf_prefix + ".ancestors",
      progress_monitor=tsinfer.cli.ProgressMonitor(1, 1, 0, 0, 0),
  )
  inferred_anc_ts = tsinfer.match_ancestors(
      params.sample_data,
      anc,
      num_threads=params.num_threads,
      precision=precision,
      recombination_rate=params.rec_rate,
      mutation_rate=base_rec_prob * params.ma_mut_rate,
      progress_monitor=tsinfer.cli.ProgressMonitor(1, 0, 1, 0, 0),
  )
  inferred_anc_ts.dump(path=inf_prefix + ".atrees")
  inferred_ts = tsinfer.match_samples(
      params.sample_data,
      inferred_anc_ts,
      num_threads=params.num_threads,
      precision=precision,
      recombination_rate=params.rec_rate,
      mutation_rate=base_rec_prob * params.ms_mut_rate,
      progress_monitor=tsinfer.cli.ProgressMonitor(1, 0, 0, 0, 1),
  )
  \<close>
\<close>

definition run :: "('anc, 'ts) engine \<Rightarrow> params \<Rightarrow> results traced" where
  "run eng params =
     (case select_precision_fl (arith eng) (rec_rate params) (ma_mut_rate params)
             (ms_mut_rate params) (precision params) of
        Inl e \<Rightarrow> ([], Inl e)
      | Inr (base_rec_prob, precision') \<Rightarrow>
     (case name_prefixes (str_float eng) params precision' of
        Inl e \<Rightarrow> ([], Inl e)
      | Inr None \<Rightarrow> ([], Inl UnboundLocalError)
      | Inr (Some (prefix, inf_prefix)) \<Rightarrow>
     (let start_time = clock_reading eng 0;
          anc_path = Some (inf_prefix @ ''.ancestors'');
          ma_args = matching_args params precision'
                      (fl_mul (arith eng) base_rec_prob (ma_mut_rate params));
          ms_args = matching_args params precision'
                      (fl_mul (arith eng) base_rec_prob (ms_mut_rate params))
      in
      then_t (call (Call_generate_ancestors (num_threads params) anc_path)
                (generate_ancestors eng (sample_data params) (num_threads params) anc_path))
        (\<lambda>anc.
      then_t (call (Call_match_ancestors ma_args)
                (match_ancestors eng (sample_data params) anc ma_args))
        (\<lambda>inferred_anc_ts.
      then_t (call (Call_dump (inf_prefix @ ''.atrees''))
                (dump eng inferred_anc_ts (inf_prefix @ ''.atrees'')))
        (\<lambda>_.
      then_t (call (Call_match_samples ms_args)
                (match_samples eng (sample_data params) inferred_anc_ts ms_args))
        (\<lambda>inferred_ts.
      summarise eng params precision' prefix inf_prefix start_time inferred_ts)))))))"

text \<open>
  A substitute engine whose calls all succeed on artifacts without content, for running
  the pipeline on concrete inputs. Its flag says whether the ground truth file exists. Its
  one tree sequence has a single tree: a root with two leaves. Its arithmetic is exact,
  as the float operations are on the inputs it is run on.
\<close>

definition stub_engine :: "bool \<Rightarrow> (unit, unit) engine" where
  "stub_engine truth_exists =
     \<lparr>generate_ancestors = (\<lambda>_ _ _. Inr ()),
      match_ancestors = (\<lambda>_ _ _. Inr ()),
      match_samples = (\<lambda>_ _ _. Inr ()),
      dump = (\<lambda>_ _. Inr ()),
      simplify = (\<lambda>_. Inr ()),
      trees = (\<lambda>_. [\<lparr>span = 10, nodes = [2, 0, 1],
                      num_children = (\<lambda>n. if n = 2 then 2 else 0)\<rparr>]),
      num_edges_of = (\<lambda>_. 2),
      num_mutations_of = (\<lambda>_. 0),
      num_trees_of = (\<lambda>_. 1),
      tskit_load = (\<lambda>_. if truth_exists then Inr () else Inl FileNotFoundError),
      kc_distance = (\<lambda>_ _. Some 0),
      getsize = (\<lambda>_. Inr 1024),
      clock_reading = (\<lambda>k. real k),
      str_float = (\<lambda>_. ''x''),
      arith = exact_ops\<rparr>"

text \<open>An input for running the pipeline: one rate beside the sentinel, precision 6.\<close>

definition example_params :: params where
  "example_params =
     \<lparr>sample_data = \<lparr>path = Some ''a.samples'', sites_position = [0, 100],
                      sites_inference = [1, 1], sequence_length = 10000\<rparr>,
      rec_rate = [0, 1 / 100],
      ma_mut_rate = 1 / 10,
      ms_mut_rate = 1 / 100,
      precision = Some 6,
      num_threads = 0\<rparr>"

section \<open>Precision selection: the proofs\<close>

subsection \<open>The median, the minimum and the order statistics\<close>

lemma np_quantile_half_median:
  assumes "xs \<noteq> []"
  shows "np_quantile xs (1 / 2) = Inr (median xs)"
proof (cases "odd (length xs)")
  case True
  then obtain k where k: "length xs = 2 * k + 1" by (auto elim: oddE)
  have "\<lfloor>(1 / 2) * (real (length xs) - 1)\<rfloor> = int k" using k by simp
  then show ?thesis using assms True k
    by (simp add: np_quantile_def median_def Let_def)
next
  case False
  then obtain k where k: "length xs = 2 * k" by (auto elim: evenE)
  have kpos: "0 < k" using assms k by (cases k) auto
  have vi: "(1 / 2) * (real (length xs) - 1) = real k - 1 / 2"
    using k by simp
  have fl: "\<lfloor>real k - 1 / 2\<rfloor> = int k - 1"
    by (simp add: floor_eq_iff)
  have lo: "nat (int k - 1) = k - 1" by simp
  have hi: "min (k - 1 + 1) (length xs - 1) = k" using kpos k by simp
  have gamma: "real k - 1 / 2 - real (k - 1) = 1 / 2"
    using kpos by (simp add: of_nat_diff)
  have dv: "length xs div 2 = k" using k by simp
  have "np_quantile xs (1 / 2) =
      Inr (sort xs ! (k - 1) + (sort xs ! k - sort xs ! (k - 1)) * (1 / 2))"
    unfolding np_quantile_def Let_def vi fl lo hi gamma using assms by simp
  moreover have "median xs = (sort xs ! (k - 1) + sort xs ! k) / 2"
    unfolding median_def Let_def dv using False by simp
  ultimately show ?thesis by (simp add: field_simps)
qed

lemma foldl_np_minimum_log:
  assumes "0 < a" "\<forall>x\<in>set xs. 0 < x"
  shows "foldl np_minimum (np_log10 a) (map np_log10 xs) = Finite (log 10 (Min (set (a # xs))))"
  using assms
proof (induction xs arbitrary: a)
  case Nil
  then show ?case by (simp add: np_log10_def)
next
  case (Cons x xs)
  have m: "0 < min a x" using Cons.prems by simp
  have "np_minimum (np_log10 a) (np_log10 x) = np_log10 (min a x)"
    using Cons.prems by (simp add: np_log10_def min_def)
  moreover have "Min (set (min a x # xs)) = Min (set (a # x # xs))"
    by (cases "xs = []") (simp_all add: min.assoc)
  ultimately show ?case using Cons.IH[OF m] Cons.prems by simp
qed

lemma np_min_log10:
  assumes "xs \<noteq> []" "\<forall>x\<in>set xs. 0 < x"
  shows "np_min (map np_log10 xs) = Inr (Finite (log 10 (Min (set xs))))"
proof -
  obtain a rest where xs: "xs = a # rest" using assms(1) by (cases xs) auto
  show ?thesis using assms(2) foldl_np_minimum_log[of a rest]
    by (simp add: np_min_def xs)
qed

lemma py_int_ceil_neg: "py_int (np_ceil (np_neg (Finite y))) = Inr \<lceil>- y\<rceil>"
  by simp

lemma sorted_nth_le_iff:
  fixes s :: "real list"
  assumes "sorted s" "k < length s"
  shows "s ! k \<le> v \<longleftrightarrow> k < length (filter (\<lambda>x. x \<le> v) s)"
  using assms
proof (induction s arbitrary: k)
  case Nil
  then show ?case by simp
next
  case (Cons a t)
  show ?case
  proof (cases "a \<le> v")
    case True
    then show ?thesis using Cons by (cases k) auto
  next
    case False
    have "\<forall>x\<in>set (a # t). \<not> x \<le> v" using False Cons.prems(1) by auto
    moreover have "(a # t) ! k \<in> set (a # t)" using Cons.prems(2) nth_mem by blast
    ultimately show ?thesis by (auto simp: filter_empty_conv)
  qed
qed

lemma sort_nth_le_iff:
  fixes xs :: "real list"
  assumes "k < length xs"
  shows "sort xs ! k \<le> v \<longleftrightarrow> k < length (filter (\<lambda>x. x \<le> v) xs)"
proof -
  have "length (filter (\<lambda>x. x \<le> v) (sort xs)) = length (filter (\<lambda>x. x \<le> v) xs)"
    by (simp add: filter_sort)
  then show ?thesis using sorted_nth_le_iff[of "sort xs" k v] assms by simp
qed

lemma filter_le_mono:
  fixes xs ys :: "real list"
  assumes "list_all2 (\<le>) xs ys"
  shows "length (filter (\<lambda>x. x \<le> v) ys) \<le> length (filter (\<lambda>x. x \<le> v) xs)"
  using assms by (induction rule: list_all2_induct) auto

lemma sort_nth_mono:
  fixes xs ys :: "real list"
  assumes "list_all2 (\<le>) xs ys" "k < length ys"
  shows "sort xs ! k \<le> sort ys ! k"
proof -
  have len: "length xs = length ys" using assms(1) by (rule list_all2_lengthD)
  have "k < length (filter (\<lambda>x. x \<le> sort ys ! k) ys)"
    using sort_nth_le_iff[OF assms(2), of "sort ys ! k"] by simp
  then have "k < length (filter (\<lambda>x. x \<le> sort ys ! k) xs)"
    using filter_le_mono[OF assms(1), of "sort ys ! k"] by linarith
  then show ?thesis using sort_nth_le_iff[of k xs "sort ys ! k"] assms(2) len by simp
qed

lemma median_mono:
  assumes "list_all2 (\<le>) xs ys" "ys \<noteq> []"
  shows "median xs \<le> median ys"
proof -
  have len: "length xs = length ys" using assms(1) by (rule list_all2_lengthD)
  have pos: "0 < length ys" using assms(2) by simp
  have k1: "length ys div 2 < length ys" using pos by simp
  have k2: "length ys div 2 - 1 < length ys" using pos by arith
  have a: "sort xs ! (length ys div 2) \<le> sort ys ! (length ys div 2)"
    using k1 by (rule sort_nth_mono[OF assms(1)])
  have b: "sort xs ! (length ys div 2 - 1) \<le> sort ys ! (length ys div 2 - 1)"
    using k2 by (rule sort_nth_mono[OF assms(1)])
  show ?thesis using a b by (simp add: median_def Let_def len)
qed

lemma median_in_range:
  assumes "xs \<noteq> []"
  shows "Min (set xs) \<le> median xs"
proof -
  have pos: "0 < length xs" using assms by simp
  have mem: "\<And>k. k < length xs \<Longrightarrow> Min (set xs) \<le> sort xs ! k"
  proof -
    fix k assume "k < length xs"
    then have "sort xs ! k \<in> set (sort xs)" by (metis length_sort nth_mem)
    then show "Min (set xs) \<le> sort xs ! k" by simp
  qed
  have k1: "length xs div 2 < length xs" using pos by simp
  have k2: "length xs div 2 - 1 < length xs" using pos by arith
  have a: "Min (set xs) \<le> sort xs ! (length xs div 2)" using k1 by (rule mem)
  have b: "Min (set xs) \<le> sort xs ! (length xs div 2 - 1)" using k2 by (rule mem)
  show ?thesis using a b by (simp add: median_def Let_def)
qed

lemma Min_mono_pointwise:
  fixes xs ys :: "real list"
  assumes "list_all2 (\<le>) xs ys" "ys \<noteq> []"
  shows "Min (set xs) \<le> Min (set ys)"
proof -
  have "Min (set ys) \<in> set ys" using assms(2) by simp
  then obtain i where i: "i < length ys" "ys ! i = Min (set ys)" by (auto simp: in_set_conv_nth)
  have len: "length xs = length ys" using assms(1) by (rule list_all2_lengthD)
  have "xs ! i \<le> ys ! i" using assms(1) i(1) by (simp add: list_all2_nthD2)
  moreover have "Min (set xs) \<le> xs ! i" using i(1) len by simp
  ultimately show ?thesis using i(2) by simp
qed

subsection \<open>The value and the failures of the selection\<close>

lemma log10_inverse_power: "log 10 (1 / 10 ^ n) = - real n"
  by (simp add: log_divide)

lemma log10_power: "log 10 (10 ^ n) = real n"
  by simp

lemma median_pos:
  assumes "xs \<noteq> []" "\<forall>x\<in>set xs. 0 < x"
  shows "0 < median xs"
proof -
  have "Min (set xs) \<in> set xs" using assms(1) by simp
  then have "0 < Min (set xs)" using assms(2) by blast
  then show ?thesis using median_in_range[OF assms(1)] by linarith
qed

lemma select_precision_value:
  assumes "tl rr \<noteq> []" "\<forall>r\<in>set (tl rr). 0 < r" "0 < ma" "0 < ms"
  shows "select_precision rr ma ms None =
    Inr (median (tl rr),
         max \<lceil>- log 10 (Min (set (tl rr)))\<rceil>
             \<lceil>- log 10 (min 1 (min ma ms) * median (tl rr))\<rceil> + 3)"
proof -
  have q: "np_quantile (tl rr) (1 / 2) = Inr (median (tl rr))"
    using assms(1) by (rule np_quantile_half_median)
  have m: "np_min (map np_log10 (tl rr)) = Inr (Finite (log 10 (Min (set (tl rr)))))"
    using assms(1,2) by (rule np_min_log10)
  have "0 < min 1 (min ma ms) * median (tl rr)"
    using median_pos[OF assms(1,2)] assms(3,4) by simp
  then have l: "np_log10 (min 1 (min ma ms) * median (tl rr)) =
      Finite (log 10 (min 1 (min ma ms) * median (tl rr)))"
    by (simp add: np_log10_def)
  show ?thesis
    by (simp add: select_precision_def Let_def q m l)
qed

lemma foldl_np_minimum_NaN: "foldl np_minimum NaN ys = NaN"
  by (induction ys) auto

lemma np_minimum_NaN_right: "np_minimum a NaN = NaN"
  by (cases a) auto

lemma foldl_np_minimum_negative:
  assumes "\<exists>x\<in>set xs. x < 0"
  shows "foldl np_minimum a (map np_log10 xs) = NaN"
  using assms
proof (induction xs arbitrary: a)
  case Nil
  then show ?case by simp
next
  case (Cons x xs)
  show ?case
  proof (cases "x < 0")
    case True
    then show ?thesis
      by (simp add: np_log10_def np_minimum_NaN_right foldl_np_minimum_NaN)
  next
    case False
    then have "\<exists>x\<in>set xs. x < 0" using Cons.prems by auto
    then show ?thesis using Cons.IH by simp
  qed
qed

lemma foldl_np_minimum_NegInf:
  assumes "\<forall>x\<in>set xs. 0 \<le> x"
  shows "foldl np_minimum NegInf (map np_log10 xs) = NegInf"
  using assms by (induction xs) (auto simp: np_log10_def)

lemma foldl_np_minimum_zero:
  assumes "\<forall>x\<in>set xs. 0 \<le> x" "\<exists>x\<in>set xs. x = 0" "a \<noteq> NaN"
  shows "foldl np_minimum a (map np_log10 xs) = NegInf"
  using assms
proof (induction xs arbitrary: a)
  case Nil
  then show ?case by simp
next
  case (Cons x xs)
  show ?case
  proof (cases "x = 0")
    case True
    have "np_minimum a NegInf = NegInf" using Cons.prems(3) by (cases a) auto
    moreover have "np_log10 x = NegInf" using True by (simp add: np_log10_def)
    moreover have "foldl np_minimum NegInf (map np_log10 xs) = NegInf"
      using Cons.prems(1) by (simp add: foldl_np_minimum_NegInf)
    ultimately show ?thesis by simp
  next
    case False
    then have x: "0 < x" using Cons.prems(1) by (simp add: order_less_le)
    have l: "np_log10 x = Finite (log 10 x)" using x by (simp add: np_log10_def)
    have n: "np_minimum a (Finite (log 10 x)) \<noteq> NaN" using Cons.prems(3) by (cases a) auto
    have z: "\<exists>x\<in>set xs. x = 0" using False Cons.prems(2) by auto
    have nn: "\<forall>x\<in>set xs. 0 \<le> x" using Cons.prems(1) by simp
    show ?thesis using Cons.IH[OF nn z n] by (simp add: l)
  qed
qed

lemma np_min_log10_nonpositive:
  assumes "xs \<noteq> []" "\<exists>x\<in>set xs. x \<le> 0"
  shows "np_min (map np_log10 xs) = Inr (if \<exists>x\<in>set xs. x < 0 then NaN else NegInf)"
proof -
  obtain a rest where xs: "xs = a # rest" using assms(1) by (cases xs) auto
  show ?thesis
  proof (cases "\<exists>x\<in>set xs. x < 0")
    case True
    have "foldl np_minimum (np_log10 a) (map np_log10 rest) = NaN"
    proof (cases "a < 0")
      case True
      then have "np_log10 a = NaN" by (simp add: np_log10_def)
      then show ?thesis by (simp add: foldl_np_minimum_NaN)
    next
      case False
      with \<open>\<exists>x\<in>set xs. x < 0\<close> have "\<exists>x\<in>set rest. x < 0" by (auto simp: xs)
      then show ?thesis by (rule foldl_np_minimum_negative)
    qed
    then show ?thesis using True by (simp add: np_min_def xs)
  next
    case False
    then have nn: "\<forall>x\<in>set xs. 0 \<le> x" by (auto simp: not_less)
    have z: "\<exists>x\<in>set xs. x = 0" using assms(2) nn by force
    have "foldl np_minimum PosInf (map np_log10 xs) = NegInf"
      using foldl_np_minimum_zero[OF nn z, of PosInf] by simp
    moreover have "np_minimum PosInf (np_log10 a) = np_log10 a"
      by (simp add: np_log10_def)
    ultimately show ?thesis using False by (simp add: np_min_def xs)
  qed
qed

lemma select_precision_raises:
  assumes "tl rr \<noteq> []" "\<exists>r\<in>set (tl rr). r \<le> 0"
  shows "select_precision rr ma ms None =
    Inl (if \<exists>r\<in>set (tl rr). r < 0 then ValueError else OverflowError)"
proof -
  have q: "np_quantile (tl rr) (1 / 2) = Inr (median (tl rr))"
    using assms(1) by (rule np_quantile_half_median)
  show ?thesis
    unfolding select_precision_def Let_def q np_min_log10_nonpositive[OF assms] by simp
qed

lemma list_all2_le_pos:
  fixes xs ys :: "real list"
  assumes "list_all2 (\<le>) xs ys" "\<forall>x\<in>set xs. 0 < x"
  shows "\<forall>y\<in>set ys. 0 < y"
  using assms by (induction rule: list_all2_induct) auto

lemma neg_log10_ceiling_mono:
  assumes "0 < x" "x \<le> y"
  shows "\<lceil>- log 10 y\<rceil> \<le> \<lceil>- log 10 x\<rceil>"
proof -
  have "log 10 x \<le> log 10 y" using assms by (simp add: log_mono)
  then show ?thesis by (simp add: ceiling_mono)
qed

lemma neg_log10_ceiling_nonneg:
  assumes "0 < x" "x < 10"
  shows "0 \<le> \<lceil>- log 10 x\<rceil>"
proof -
  have "log 10 x < log 10 10" using assms by (subst log_less_cancel_iff) simp_all
  then have "- 1 < - log 10 x" by simp
  then show ?thesis by linarith
qed

subsection \<open>The selection with rounded operations\<close>

lemma np_log10_fl_exact: "np_log10_fl exact_ops = np_log10"
  by (rule ext) (simp add: np_log10_fl_def np_log10_def exact_ops_def)

lemma np_quantile_fl_exact: "np_quantile_fl exact_ops a q = np_quantile a q"
  by (simp add: np_quantile_fl_def np_quantile_def exact_ops_def)

lemma fl_mul_exact: "fl_mul exact_ops a b = a * b"
  by (simp add: exact_ops_def)

lemma select_precision_fl_exact:
  "select_precision_fl exact_ops rr ma ms ov = select_precision rr ma ms ov"
  unfolding select_precision_fl_def select_precision_def np_log10_fl_exact np_quantile_fl_exact
    fl_mul_exact
  by (rule refl)

lemma Min_insert_min:
  fixes a b :: real
  assumes "finite A"
  shows "Min (insert (min a b) A) = Min (insert a (insert b A))"
proof (cases "A = {}")
  case True
  then show ?thesis by simp
next
  case False
  then show ?thesis using assms by (simp add: min.assoc)
qed

lemma foldl_np_minimum_fl:
  assumes "\<forall>x\<in>set xs. 0 < x"
  shows "foldl np_minimum (Finite a) (map (np_log10_fl ops) xs) =
    Finite (Min (insert a (fl_log10 ops ` set xs)))"
  using assms
proof (induction xs arbitrary: a)
  case Nil
  then show ?case by simp
next
  case (Cons x xs)
  have step: "np_minimum (Finite a) (np_log10_fl ops x) = Finite (min a (fl_log10 ops x))"
    using Cons.prems by (simp add: np_log10_fl_def)
  have ih: "foldl np_minimum (Finite (min a (fl_log10 ops x))) (map (np_log10_fl ops) xs) =
      Finite (Min (insert (min a (fl_log10 ops x)) (fl_log10 ops ` set xs)))"
    using Cons.prems by (intro Cons.IH) simp
  have "Min (insert (min a (fl_log10 ops x)) (fl_log10 ops ` set xs)) =
      Min (insert a (insert (fl_log10 ops x) (fl_log10 ops ` set xs)))"
    by (rule Min_insert_min) simp
  then show ?case using step ih by simp
qed

lemma np_min_log10_fl:
  assumes "xs \<noteq> []" "\<forall>x\<in>set xs. 0 < x"
  shows "np_min (map (np_log10_fl ops) xs) = Inr (Finite (Min (fl_log10 ops ` set xs)))"
proof -
  obtain a rest where xs: "xs = a # rest" using assms(1) by (cases xs) auto
  have a: "np_log10_fl ops a = Finite (fl_log10 ops a)"
    using assms(2) by (simp add: np_log10_fl_def xs)
  have "foldl np_minimum (Finite (fl_log10 ops a)) (map (np_log10_fl ops) rest) =
      Finite (Min (insert (fl_log10 ops a) (fl_log10 ops ` set rest)))"
    using assms(2) by (intro foldl_np_minimum_fl) (simp add: xs)
  then show ?thesis by (simp add: np_min_def xs a)
qed

lemma Min_image_mono_on_pos:
  fixes f :: "real \<Rightarrow> real"
  assumes "xs \<noteq> []" "\<forall>x\<in>set xs. 0 < x"
    and "\<forall>x y. 0 < x \<and> x \<le> y \<longrightarrow> f x \<le> f y"
  shows "Min (f ` set xs) = f (Min (set xs))"
proof (rule Min_eqI)
  show "finite (f ` set xs)" by simp
  show "f (Min (set xs)) \<in> f ` set xs" using assms(1) by simp
  fix y assume "y \<in> f ` set xs"
  then obtain x where x: "x \<in> set xs" "y = f x" by blast
  have "Min (set xs) \<in> set xs" using assms(1) by simp
  then have "0 < Min (set xs)" using assms(2) by blast
  moreover have "Min (set xs) \<le> x" using x(1) by simp
  ultimately show "f (Min (set xs)) \<le> y" using assms(3) x(2) by blast
qed

lemma np_quantile_fl_exact_lerp:
  assumes "xs \<noteq> []" "\<forall>a b g. fl_lerp ops a b g = a + (b - a) * g"
  shows "np_quantile_fl ops xs (1 / 2) = Inr (median xs)"
proof -
  have "np_quantile_fl ops xs (1 / 2) = np_quantile xs (1 / 2)"
    using assms(2) by (simp add: np_quantile_fl_def np_quantile_def)
  then show ?thesis using np_quantile_half_median[OF assms(1)] by simp
qed

lemma select_precision_fl_value:
  assumes "tl rr \<noteq> []" "\<forall>r\<in>set (tl rr). 0 < r"
    and "np_quantile_fl ops (tl rr) (1 / 2) = Inr base"
    and "0 < fl_mul ops (min 1 (min ma ms)) base"
  shows "select_precision_fl ops rr ma ms None =
    Inr (base,
         max \<lceil>- Min (fl_log10 ops ` set (tl rr))\<rceil>
             \<lceil>- fl_log10 ops (fl_mul ops (min 1 (min ma ms)) base)\<rceil> + 3)"
proof -
  have m: "np_min (map (np_log10_fl ops) (tl rr)) =
      Inr (Finite (Min (fl_log10 ops ` set (tl rr))))"
    using assms(1,2) by (rule np_min_log10_fl)
  have l: "np_log10_fl ops (fl_mul ops (min 1 (min ma ms)) base) =
      Finite (fl_log10 ops (fl_mul ops (min 1 (min ma ms)) base))"
    using assms(4) by (simp add: np_log10_fl_def)
  show ?thesis
    by (simp add: select_precision_fl_def Let_def assms(3) m l)
qed

lemma foldl_np_minimum_fl_negative:
  assumes "\<exists>x\<in>set xs. x < 0"
  shows "foldl np_minimum a (map (np_log10_fl ops) xs) = NaN"
  using assms
proof (induction xs arbitrary: a)
  case Nil
  then show ?case by simp
next
  case (Cons x xs)
  show ?case
  proof (cases "x < 0")
    case True
    then show ?thesis
      by (simp add: np_log10_fl_def np_minimum_NaN_right foldl_np_minimum_NaN)
  next
    case False
    then have "\<exists>x\<in>set xs. x < 0" using Cons.prems by auto
    then show ?thesis using Cons.IH by simp
  qed
qed

lemma foldl_np_minimum_fl_NegInf:
  assumes "\<forall>x\<in>set xs. 0 \<le> x"
  shows "foldl np_minimum NegInf (map (np_log10_fl ops) xs) = NegInf"
  using assms by (induction xs) (auto simp: np_log10_fl_def)

lemma foldl_np_minimum_fl_zero:
  assumes "\<forall>x\<in>set xs. 0 \<le> x" "\<exists>x\<in>set xs. x = 0" "a \<noteq> NaN"
  shows "foldl np_minimum a (map (np_log10_fl ops) xs) = NegInf"
  using assms
proof (induction xs arbitrary: a)
  case Nil
  then show ?case by simp
next
  case (Cons x xs)
  show ?case
  proof (cases "x = 0")
    case True
    have "np_minimum a NegInf = NegInf" using Cons.prems(3) by (cases a) auto
    moreover have "np_log10_fl ops x = NegInf" using True by (simp add: np_log10_fl_def)
    moreover have "foldl np_minimum NegInf (map (np_log10_fl ops) xs) = NegInf"
      using Cons.prems(1) by (simp add: foldl_np_minimum_fl_NegInf)
    ultimately show ?thesis by simp
  next
    case False
    then have x: "0 < x" using Cons.prems(1) by (simp add: order_less_le)
    have l: "np_log10_fl ops x = Finite (fl_log10 ops x)" using x by (simp add: np_log10_fl_def)
    have n: "np_minimum a (Finite (fl_log10 ops x)) \<noteq> NaN"
      using Cons.prems(3) by (cases a) auto
    have z: "\<exists>x\<in>set xs. x = 0" using False Cons.prems(2) by auto
    have nn: "\<forall>x\<in>set xs. 0 \<le> x" using Cons.prems(1) by simp
    show ?thesis using Cons.IH[OF nn z n] by (simp add: l)
  qed
qed

lemma np_min_log10_fl_nonpositive:
  assumes "xs \<noteq> []" "\<exists>x\<in>set xs. x \<le> 0"
  shows "np_min (map (np_log10_fl ops) xs) =
    Inr (if \<exists>x\<in>set xs. x < 0 then NaN else NegInf)"
proof -
  obtain a rest where xs: "xs = a # rest" using assms(1) by (cases xs) auto
  show ?thesis
  proof (cases "\<exists>x\<in>set xs. x < 0")
    case True
    have "foldl np_minimum (np_log10_fl ops a) (map (np_log10_fl ops) rest) = NaN"
    proof (cases "a < 0")
      case True
      then have "np_log10_fl ops a = NaN" by (simp add: np_log10_fl_def)
      then show ?thesis by (simp add: foldl_np_minimum_NaN)
    next
      case False
      with \<open>\<exists>x\<in>set xs. x < 0\<close> have "\<exists>x\<in>set rest. x < 0" by (auto simp: xs)
      then show ?thesis by (rule foldl_np_minimum_fl_negative)
    qed
    then show ?thesis using True by (simp add: np_min_def xs)
  next
    case False
    then have nn: "\<forall>x\<in>set xs. 0 \<le> x" by (auto simp: not_less)
    have z: "\<exists>x\<in>set xs. x = 0" using assms(2) nn by force
    have "foldl np_minimum PosInf (map (np_log10_fl ops) xs) = NegInf"
      using foldl_np_minimum_fl_zero[OF nn z, of PosInf] by simp
    moreover have "np_minimum PosInf (np_log10_fl ops a) = np_log10_fl ops a"
      by (simp add: np_log10_fl_def)
    ultimately show ?thesis using False by (simp add: np_min_def xs)
  qed
qed

lemma np_quantile_fl_half:
  assumes "xs \<noteq> []"
  shows "\<exists>lo hi g. lo < length xs \<and> hi < length xs \<and> 0 \<le> g \<and> g \<le> 1 \<and>
      (\<forall>ops ys. length ys = length xs \<longrightarrow>
         np_quantile_fl ops ys (1 / 2) = Inr (fl_lerp ops (sort ys ! lo) (sort ys ! hi) g))"
proof -
  let ?n = "length xs"
  let ?v = "1 / 2 * (real ?n - 1)"
  let ?lo = "nat \<lfloor>?v\<rfloor>"
  let ?hi = "min (?lo + 1) (?n - 1)"
  have pos: "0 < ?n" using assms by simp
  have "real_of_int \<lfloor>?v\<rfloor> \<le> ?v" by (rule of_int_floor_le)
  also have "?v \<le> real ?n - 1" using pos by (simp add: Suc_le_eq)
  finally have "\<lfloor>?v\<rfloor> \<le> int ?n - 1" using pos by linarith
  then have lo: "?lo < ?n" using pos by linarith
  have "?n - 1 < ?n" using pos by arith
  then have hi: "?hi < ?n" by (rule min.strict_coboundedI2)
  have "np_quantile_fl ops ys (1 / 2) =
      Inr (fl_lerp ops (sort ys ! ?lo) (sort ys ! ?hi) (?v - real ?lo))"
    if "length ys = ?n" for ops and ys :: "real list"
  proof -
    have "ys \<noteq> []" using that pos by auto
    then show ?thesis by (simp add: np_quantile_fl_def Let_def that)
  qed
  moreover have "0 \<le> ?v - real ?lo \<and> ?v - real ?lo \<le> 1"
  proof -
    have v: "0 \<le> ?v" using pos by (simp add: Suc_le_eq)
    then have "0 \<le> \<lfloor>?v\<rfloor>" by simp
    then have "real ?lo = real_of_int \<lfloor>?v\<rfloor>" by simp
    then show ?thesis by linarith
  qed
  ultimately show ?thesis using lo hi by blast
qed

lemma select_precision_fl_raises:
  assumes "tl rr \<noteq> []" "\<exists>r\<in>set (tl rr). r \<le> 0"
  shows "select_precision_fl ops rr ma ms None =
    Inl (if \<exists>r\<in>set (tl rr). r < 0 then ValueError else OverflowError)"
proof -
  obtain b where q: "np_quantile_fl ops (tl rr) (1 / 2) = Inr b"
    using np_quantile_fl_half[OF assms(1)] by blast
  show ?thesis
    unfolding select_precision_fl_def Let_def q np_min_log10_fl_nonpositive[OF assms] by simp
qed

lemma select_precision_fl_monotone:
  assumes ne: "tl rr \<noteq> []"
    and pos': "\<forall>r\<in>set (tl rr'). 0 < r"
    and le: "list_all2 (\<le>) (tl rr') (tl rr)"
    and mul: "0 < ma'" "ma' \<le> ma" "0 < ms'" "ms' \<le> ms"
    and log_mono: "\<forall>x y. 0 < x \<and> x \<le> y \<longrightarrow> fl_log10 ops x \<le> fl_log10 ops y"
    and mul_mono: "\<forall>x' x y' y. 0 < x' \<and> x' \<le> x \<and> 0 < y' \<and> y' \<le> y \<longrightarrow>
        fl_mul ops x' y' \<le> fl_mul ops x y"
    and lerp_mono: "\<forall>a' a b' b g. a' \<le> a \<and> b' \<le> b \<and> 0 \<le> g \<and> g \<le> 1 \<longrightarrow>
        fl_lerp ops a' b' g \<le> fl_lerp ops a b g"
    and lerp_pos: "\<forall>a b g. 0 < a \<and> 0 < b \<and> 0 \<le> g \<and> g \<le> 1 \<longrightarrow>
        0 < fl_lerp ops a b g"
    and no_underflow: "\<forall>b'. np_quantile_fl ops (tl rr') (1 / 2) = Inr b' \<longrightarrow>
        0 < fl_mul ops (min 1 (min ma' ms')) b'"
  shows "\<exists>b p b' p'.
      select_precision_fl ops rr ma ms None = Inr (b, p) \<and>
      select_precision_fl ops rr' ma' ms' None = Inr (b', p') \<and>
      p \<le> p' \<and> (fl_log10 ops (Min (set (tl rr))) \<le> 0 \<longrightarrow> 3 \<le> p)"
proof -
  let ?rho = "tl rr" and ?rho' = "tl rr'"
  let ?c = "min 1 (min ma ms)" and ?c' = "min 1 (min ma' ms')"
  have len: "length ?rho' = length ?rho" using le by (rule list_all2_lengthD)
  have ne': "?rho' \<noteq> []" using ne le by auto
  have pos: "\<forall>r\<in>set ?rho. 0 < r" using le pos' by (rule list_all2_le_pos)
  obtain lo hi g where lo: "lo < length ?rho" and hi: "hi < length ?rho"
    and g: "0 \<le> g" "g \<le> 1"
    and q: "\<And>ys. length ys = length ?rho \<Longrightarrow>
        np_quantile_fl ops ys (1 / 2) = Inr (fl_lerp ops (sort ys ! lo) (sort ys ! hi) g)"
    using np_quantile_fl_half[OF ne] by blast
  define b where "b = fl_lerp ops (sort ?rho ! lo) (sort ?rho ! hi) g"
  define b' where "b' = fl_lerp ops (sort ?rho' ! lo) (sort ?rho' ! hi) g"
  have qb: "np_quantile_fl ops ?rho (1 / 2) = Inr b" unfolding b_def by (rule q) simp
  have qb': "np_quantile_fl ops ?rho' (1 / 2) = Inr b'" unfolding b'_def by (rule q) (rule len)
  have slo: "sort ?rho' ! lo \<le> sort ?rho ! lo" using le lo by (rule sort_nth_mono)
  have shi: "sort ?rho' ! hi \<le> sort ?rho ! hi" using le hi by (rule sort_nth_mono)
  have b_le: "b' \<le> b" unfolding b_def b'_def using lerp_mono slo shi g by blast
  have "sort ?rho' ! lo \<in> set (sort ?rho')" using lo len by (metis length_sort nth_mem)
  then have plo: "0 < sort ?rho' ! lo" using pos' by simp
  have "sort ?rho' ! hi \<in> set (sort ?rho')" using hi len by (metis length_sort nth_mem)
  then have phi: "0 < sort ?rho' ! hi" using pos' by simp
  have b_pos': "0 < b'" unfolding b'_def using lerp_pos plo phi g by blast
  have c_pos': "0 < ?c'" using mul by simp
  have c_le: "?c' \<le> ?c" using mul by (simp add: min_def)
  have prod_pos': "0 < fl_mul ops ?c' b'" using no_underflow qb' by blast
  have prod_le: "fl_mul ops ?c' b' \<le> fl_mul ops ?c b"
    using mul_mono c_pos' c_le b_pos' b_le by blast
  have prod_pos: "0 < fl_mul ops ?c b" using prod_pos' prod_le by linarith
  have s: "select_precision_fl ops rr ma ms None =
      Inr (b, max \<lceil>- Min (fl_log10 ops ` set ?rho)\<rceil> \<lceil>- fl_log10 ops (fl_mul ops ?c b)\<rceil> + 3)"
    using ne pos qb prod_pos by (rule select_precision_fl_value)
  have s': "select_precision_fl ops rr' ma' ms' None =
      Inr (b', max \<lceil>- Min (fl_log10 ops ` set ?rho')\<rceil> \<lceil>- fl_log10 ops (fl_mul ops ?c' b')\<rceil> + 3)"
    using ne' pos' qb' prod_pos' by (rule select_precision_fl_value)
  have m: "Min (fl_log10 ops ` set ?rho) = fl_log10 ops (Min (set ?rho))"
    using ne pos log_mono by (rule Min_image_mono_on_pos)
  have m': "Min (fl_log10 ops ` set ?rho') = fl_log10 ops (Min (set ?rho'))"
    using ne' pos' log_mono by (rule Min_image_mono_on_pos)
  have min_pos': "0 < Min (set ?rho')" using ne' pos' by simp
  have min_le: "Min (set ?rho') \<le> Min (set ?rho)" using le ne by (rule Min_mono_pointwise)
  have "fl_log10 ops (Min (set ?rho')) \<le> fl_log10 ops (Min (set ?rho))"
    using log_mono min_pos' min_le by blast
  then have a: "\<lceil>- fl_log10 ops (Min (set ?rho))\<rceil> \<le> \<lceil>- fl_log10 ops (Min (set ?rho'))\<rceil>"
    by (simp add: ceiling_mono)
  have "fl_log10 ops (fl_mul ops ?c' b') \<le> fl_log10 ops (fl_mul ops ?c b)"
    using log_mono prod_pos' prod_le by blast
  then have c: "\<lceil>- fl_log10 ops (fl_mul ops ?c b)\<rceil> \<le> \<lceil>- fl_log10 ops (fl_mul ops ?c' b')\<rceil>"
    by (simp add: ceiling_mono)
  have three: "fl_log10 ops (Min (set ?rho)) \<le> 0 \<longrightarrow>
      3 \<le> max \<lceil>- fl_log10 ops (Min (set ?rho))\<rceil> \<lceil>- fl_log10 ops (fl_mul ops ?c b)\<rceil> + 3"
  proof
    assume "fl_log10 ops (Min (set ?rho)) \<le> 0"
    then have "0 \<le> \<lceil>- fl_log10 ops (Min (set ?rho))\<rceil>" by simp
    then show "3 \<le> max \<lceil>- fl_log10 ops (Min (set ?rho))\<rceil>
        \<lceil>- fl_log10 ops (fl_mul ops ?c b)\<rceil> + 3"
      by linarith
  qed
  have le3: "max \<lceil>- fl_log10 ops (Min (set ?rho))\<rceil> \<lceil>- fl_log10 ops (fl_mul ops ?c b)\<rceil> + 3
      \<le> max \<lceil>- fl_log10 ops (Min (set ?rho'))\<rceil> \<lceil>- fl_log10 ops (fl_mul ops ?c' b')\<rceil> + 3"
    using a c by linarith
  show ?thesis unfolding s s' m m' using le3 three by blast
qed

lemma exact_ops_monotone:
  "\<forall>x y. 0 < x \<and> x \<le> y \<longrightarrow> fl_log10 exact_ops x \<le> fl_log10 exact_ops y"
  "\<forall>x' x y' y. 0 < x' \<and> x' \<le> x \<and> 0 < y' \<and> y' \<le> y \<longrightarrow>
      fl_mul exact_ops x' y' \<le> fl_mul exact_ops x y"
  "\<forall>a' a b' b g. a' \<le> a \<and> b' \<le> b \<and> 0 \<le> g \<and> g \<le> 1 \<longrightarrow>
      fl_lerp exact_ops a' b' g \<le> fl_lerp exact_ops a b g"
  "\<forall>a b g. 0 < a \<and> 0 < b \<and> 0 \<le> g \<and> g \<le> 1 \<longrightarrow> 0 < fl_lerp exact_ops a b g"
proof -
  show "\<forall>x y. 0 < x \<and> x \<le> y \<longrightarrow> fl_log10 exact_ops x \<le> fl_log10 exact_ops y"
    by (simp add: exact_ops_def log_mono)
  show "\<forall>x' x y' y. 0 < x' \<and> x' \<le> x \<and> 0 < y' \<and> y' \<le> y \<longrightarrow>
      fl_mul exact_ops x' y' \<le> fl_mul exact_ops x y"
    by (simp add: exact_ops_def mult_mono)
  have lerp: "a + (b - a) * g = a * (1 - g) + b * g" for a b g :: real
    by (simp add: algebra_simps)
  show "\<forall>a' a b' b g. a' \<le> a \<and> b' \<le> b \<and> 0 \<le> g \<and> g \<le> 1 \<longrightarrow>
      fl_lerp exact_ops a' b' g \<le> fl_lerp exact_ops a b g"
  proof (intro allI impI)
    fix a' a b' b g :: real
    assume h: "a' \<le> a \<and> b' \<le> b \<and> 0 \<le> g \<and> g \<le> 1"
    have "a' * (1 - g) \<le> a * (1 - g)" using h by (intro mult_right_mono) simp_all
    moreover have "b' * g \<le> b * g" using h by (intro mult_right_mono) simp_all
    ultimately show "fl_lerp exact_ops a' b' g \<le> fl_lerp exact_ops a b g"
      by (simp add: exact_ops_def lerp)
  qed
  show "\<forall>a b g. 0 < a \<and> 0 < b \<and> 0 \<le> g \<and> g \<le> 1 \<longrightarrow> 0 < fl_lerp exact_ops a b g"
  proof (intro allI impI)
    fix a b g :: real
    assume h: "0 < a \<and> 0 < b \<and> 0 \<le> g \<and> g \<le> 1"
    have nn: "0 \<le> a * (1 - g)" "0 \<le> b * g" using h by simp_all
    have "0 < a * (1 - g) + b * g"
    proof (cases "g = 0")
      case True
      then show ?thesis using h by simp
    next
      case False
      then have "0 < b * g" using h by simp
      then show ?thesis using nn(1) by linarith
    qed
    then show "0 < fl_lerp exact_ops a b g" by (simp add: exact_ops_def lerp)
  qed
qed

text \<open>
  Claim C1. With no precision override, a rate array with at least one rate beside the
  sentinel, all of them positive, and a positive float product of \<open>min(1, ma, ms)\<close> and
  the base probability: the selected precision is
  \<open>max (ceil (- min of the log10 of the rates)) (ceil (- log10 (min(1, ma, ms) * base))) + 3\<close>,
  with numpy's rounded logarithm, product and quantile. When the rounded logarithm is
  monotone, the minimum of the logarithms is the logarithm of the smallest rate; when the
  interpolation of the quantile is exact, the base probability is the median of the rates
  without the sentinel; and in exact arithmetic the precision is the formula of the claim,
  \<open>max (ceil (- log10 (minimum rate))) (ceil (- log10 (min(1, ma, ms) * median))) + 3\<close>.
\<close>

theorem select_precision_formula:
  assumes "tl rr \<noteq> []" "\<forall>r\<in>set (tl rr). 0 < r"
    and "np_quantile_fl ops (tl rr) (1 / 2) = Inr base"
    and "0 < fl_mul ops (min 1 (min ma ms)) base"
  shows "select_precision_fl ops rr ma ms None =
      Inr (base,
           max \<lceil>- Min (fl_log10 ops ` set (tl rr))\<rceil>
               \<lceil>- fl_log10 ops (fl_mul ops (min 1 (min ma ms)) base)\<rceil> + 3) \<and>
    ((\<forall>x y. 0 < x \<and> x \<le> y \<longrightarrow> fl_log10 ops x \<le> fl_log10 ops y) \<longrightarrow>
       Min (fl_log10 ops ` set (tl rr)) = fl_log10 ops (Min (set (tl rr)))) \<and>
    ((\<forall>a b g. fl_lerp ops a b g = a + (b - a) * g) \<longrightarrow> base = median (tl rr)) \<and>
    (ops = exact_ops \<longrightarrow>
       select_precision rr ma ms None =
         Inr (median (tl rr),
              max \<lceil>- log 10 (Min (set (tl rr)))\<rceil>
                  \<lceil>- log 10 (min 1 (min ma ms) * median (tl rr))\<rceil> + 3))"
proof (intro conjI impI)
  show "select_precision_fl ops rr ma ms None =
      Inr (base,
           max \<lceil>- Min (fl_log10 ops ` set (tl rr))\<rceil>
               \<lceil>- fl_log10 ops (fl_mul ops (min 1 (min ma ms)) base)\<rceil> + 3)"
    using assms by (rule select_precision_fl_value)
next
  assume "\<forall>x y. 0 < x \<and> x \<le> y \<longrightarrow> fl_log10 ops x \<le> fl_log10 ops y"
  with assms(1,2) show "Min (fl_log10 ops ` set (tl rr)) = fl_log10 ops (Min (set (tl rr)))"
    by (rule Min_image_mono_on_pos)
next
  assume "\<forall>a b g. fl_lerp ops a b g = a + (b - a) * g"
  with assms(1) have "np_quantile_fl ops (tl rr) (1 / 2) = Inr (median (tl rr))"
    by (rule np_quantile_fl_exact_lerp)
  with assms(3) show "base = median (tl rr)" by simp
next
  assume ex: "ops = exact_ops"
  have lerp: "\<forall>a b g. fl_lerp ops a b g = a + (b - a) * g" by (simp add: ex exact_ops_def)
  have b: "base = median (tl rr)"
    using np_quantile_fl_exact_lerp[OF assms(1) lerp] assms(3) by simp
  have mono: "\<forall>x y. 0 < x \<and> x \<le> y \<longrightarrow> fl_log10 ops x \<le> fl_log10 ops y"
    by (simp add: ex exact_ops_def log_mono)
  have mn: "Min (fl_log10 ops ` set (tl rr)) = log 10 (Min (set (tl rr)))"
    using Min_image_mono_on_pos[OF assms(1,2) mono] by (simp add: ex exact_ops_def)
  have "select_precision rr ma ms None = select_precision_fl ops rr ma ms None"
    by (simp add: ex select_precision_fl_exact)
  also have "\<dots> = Inr (base,
           max \<lceil>- Min (fl_log10 ops ` set (tl rr))\<rceil>
               \<lceil>- fl_log10 ops (fl_mul ops (min 1 (min ma ms)) base)\<rceil> + 3)"
    using assms by (rule select_precision_fl_value)
  also have "\<dots> = Inr (median (tl rr),
              max \<lceil>- log 10 (Min (set (tl rr)))\<rceil>
                  \<lceil>- log 10 (min 1 (min ma ms) * median (tl rr))\<rceil> + 3)"
    unfolding mn b by (simp add: ex exact_ops_def)
  finally show "select_precision rr ma ms None =
         Inr (median (tl rr),
              max \<lceil>- log 10 (Min (set (tl rr)))\<rceil>
                  \<lceil>- log 10 (min 1 (min ma ms) * median (tl rr))\<rceil> + 3)" .
qed

theorem select_precision_formula_witness:
  "select_precision_fl exact_ops [0, 1 / 100] (1 / 10) (1 / 100) None = Inr (1 / 100, 7)"
proof -
  have a: "log 10 (1 / 100) = - 2" using log10_inverse_power[of 2] by simp
  have b: "log 10 (1 / 10000) = - 4" using log10_inverse_power[of 4] by simp
  have q: "np_quantile_fl exact_ops (tl [0, 1 / 100]) (1 / 2) = Inr (1 / 100)"
    by (simp add: np_quantile_fl_def exact_ops_def)
  have pr: "0 < fl_mul exact_ops (min 1 (min (1 / 10) (1 / 100))) (1 / 100)"
    by (simp add: exact_ops_def)
  have ne: "tl [0, 1 / 100 :: real] \<noteq> []" and pos: "\<forall>r\<in>set (tl [0, 1 / 100 :: real]). 0 < r"
    by simp_all
  from select_precision_formula[OF ne pos q pr]
  show ?thesis by (simp add: exact_ops_def a b)
qed

text \<open>
  The claim as it is written speaks of every pair of mutation multipliers. With a
  multiplier of zero the product under the second logarithm is zero, its logarithm is
  \<open>-inf\<close>, and the conversion to an integer raises: no precision is selected.
\<close>

theorem select_precision_zero_multiplier:
  "select_precision_fl exact_ops [0, 1 / 10] 0 (1 / 100) None = Inl OverflowError"
  by (simp add: select_precision_fl_def np_quantile_fl_def np_min_def np_log10_fl_def
        exact_ops_def Let_def)

text \<open>
  The claim as it is written also takes the logarithm exactly. The float just below 0.1
  is 900719925474099 / 2^53, printed 0.09999999999999999. At this rate, with both
  multipliers 1, the exact logarithm is below -1 and the formula gives 2 + 3 = 5, while
  the rounded logarithm (that of numpy at this float) is exactly -1 and the program
  selects 1 + 3 = 4.
\<close>

lemma select_precision_rounded_logarithm:
  "select_precision_fl
     \<lparr>fl_log10 = (\<lambda>x. if x = 900719925474099 / 9007199254740992 then - 1 else log 10 x),
      fl_mul = (*), fl_lerp = (\<lambda>a b gamma. a + (b - a) * gamma)\<rparr>
     [0, 900719925474099 / 9007199254740992] 1 1 None =
     Inr (900719925474099 / 9007199254740992, 4) \<and>
   select_precision [0, 900719925474099 / 9007199254740992] 1 1 None =
     Inr (900719925474099 / 9007199254740992, 5)"
proof -
  let ?r = "900719925474099 / 9007199254740992 :: real"
  let ?ops = "\<lparr>fl_log10 = (\<lambda>x. if x = ?r then - 1 else log 10 x),
      fl_mul = (*), fl_lerp = (\<lambda>a b gamma. a + (b - a) * gamma)\<rparr>"
  have lt: "log 10 ?r < - 1"
  proof -
    have "log 10 ?r < log 10 (1 / 10)" by (subst log_less_cancel_iff) simp_all
    also have "log 10 (1 / 10) = - 1" using log10_inverse_power[of 1] by simp
    finally show ?thesis .
  qed
  have gt: "- 2 < log 10 ?r"
  proof -
    have "log 10 (1 / 100) < log 10 ?r" by (subst log_less_cancel_iff) simp_all
    moreover have "log 10 (1 / 100) = - 2" using log10_inverse_power[of 2] by simp
    ultimately show ?thesis by simp
  qed
  have c: "\<lceil>- log 10 ?r\<rceil> = 2" using lt gt by (simp add: ceiling_eq_iff)
  have q: "np_quantile_fl ?ops (tl [0, ?r]) (1 / 2) = Inr ?r"
    by (simp add: np_quantile_fl_def)
  have pr: "0 < fl_mul ?ops (min 1 (min 1 1)) ?r" by simp
  have fl: "select_precision_fl ?ops [0, ?r] 1 1 None = Inr (?r, 4)"
    using select_precision_fl_value[OF _ _ q pr] by simp
  have med: "median [?r] = ?r" by (simp add: median_def)
  have ex: "select_precision [0, ?r] 1 1 None = Inr (?r, 5)"
    using select_precision_value[of "[0, ?r]" 1 1] c by (simp add: med)
  show ?thesis using fl ex by (rule conjI)
qed

text \<open>
  Claim C2. A rate array with a rate beside the sentinel that is zero or negative, and no
  precision override: the selection raises, and no precision is returned. The exception
  is the one of the conversion to an integer: \<^verbatim>\<open>ValueError\<close> (\<open>nan\<close>) when some rate is
  negative, \<^verbatim>\<open>OverflowError\<close> (infinity) otherwise. It is not a diagnostic of the rate.
  This holds in exact arithmetic and with every rounding of the operations.
\<close>

theorem select_precision_nonpositive_rate:
  assumes "\<exists>r\<in>set (tl rr). r \<le> 0"
  shows "select_precision rr ma ms None =
    Inl (if \<exists>r\<in>set (tl rr). r < 0 then ValueError else OverflowError) \<and>
    select_precision_fl ops rr ma ms None =
    Inl (if \<exists>r\<in>set (tl rr). r < 0 then ValueError else OverflowError)"
proof -
  have "tl rr \<noteq> []" using assms by auto
  then show ?thesis using assms
    by (intro conjI select_precision_raises select_precision_fl_raises)
qed

theorem select_precision_nonpositive_rate_witness:
  "select_precision [0, 0, 1 / 2] (1 / 10) (1 / 100) None = Inl OverflowError \<and>
   (\<forall>ops. select_precision_fl ops [0, 0, 1 / 2] (1 / 10) (1 / 100) None = Inl OverflowError)"
proof (intro conjI allI)
  show "select_precision [0, 0, 1 / 2] (1 / 10) (1 / 100) None = Inl OverflowError"
    using select_precision_nonpositive_rate[of "[0, 0, 1 / 2]" "1 / 10" "1 / 100"] by simp
next
  fix ops
  show "select_precision_fl ops [0, 0, 1 / 2] (1 / 10) (1 / 100) None = Inl OverflowError"
    using select_precision_nonpositive_rate[of "[0, 0, 1 / 2]" "1 / 10" "1 / 100" ops] by simp
qed

text \<open>
  The claim as it is written asks for a clear diagnostic of the degenerate rate, the
  \<open>NumericDegeneracy\<close> of the specification. On a zero rate the program raises the
  conversion's \<^verbatim>\<open>OverflowError\<close> instead.
\<close>

theorem select_precision_no_rate_diagnostic:
  "select_precision [0, 0] (1 / 10) (1 / 100) None = Inl OverflowError \<and>
   select_precision [0, 0] (1 / 10) (1 / 100) None \<noteq> Inl NumericDegeneracy \<and>
   (\<forall>ops. select_precision_fl ops [0, 0] (1 / 10) (1 / 100) None = Inl OverflowError)"
  by (simp add: select_precision_def np_quantile_def np_min_def np_log10_def Let_def
        select_precision_fl_def np_quantile_fl_def np_log10_fl_def)

text \<open>
  The selection in exact arithmetic does not decrease when rates or multipliers shrink.
\<close>

lemma select_precision_exact_monotone:
  assumes "tl rr \<noteq> []"
    and "\<forall>r\<in>set (tl rr'). 0 < r"
    and "list_all2 (\<le>) (tl rr') (tl rr)"
    and "0 < ma'" "ma' \<le> ma" "0 < ms'" "ms' \<le> ms"
  shows "\<exists>b p b' p'.
      select_precision rr ma ms None = Inr (b, p) \<and>
      select_precision rr' ma' ms' None = Inr (b', p') \<and>
      p \<le> p' \<and> (Min (set (tl rr)) < 10 \<longrightarrow> 3 \<le> p)"
proof -
  let ?rho = "tl rr" and ?rho' = "tl rr'"
  let ?c = "min 1 (min ma ms)" and ?c' = "min 1 (min ma' ms')"
  have ne': "?rho' \<noteq> []" using assms(1,3) by auto
  have pos: "\<forall>r\<in>set ?rho. 0 < r" using assms(3,2) by (rule list_all2_le_pos)
  have ma: "0 < ma" and ms: "0 < ms" using assms(4-7) by linarith+
  have s: "select_precision rr ma ms None =
      Inr (median ?rho, max \<lceil>- log 10 (Min (set ?rho))\<rceil> \<lceil>- log 10 (?c * median ?rho)\<rceil> + 3)"
    using assms(1) pos ma ms by (rule select_precision_value)
  have s': "select_precision rr' ma' ms' None =
      Inr (median ?rho', max \<lceil>- log 10 (Min (set ?rho'))\<rceil> \<lceil>- log 10 (?c' * median ?rho')\<rceil> + 3)"
    using ne' assms(2,4,6) by (rule select_precision_value)
  have min_pos': "0 < Min (set ?rho')" using ne' assms(2) by simp
  have min_pos: "0 < Min (set ?rho)" using assms(1) pos by simp
  have min_le: "Min (set ?rho') \<le> Min (set ?rho)"
    using assms(3,1) by (rule Min_mono_pointwise)
  have a: "\<lceil>- log 10 (Min (set ?rho))\<rceil> \<le> \<lceil>- log 10 (Min (set ?rho'))\<rceil>"
    using min_pos' min_le by (rule neg_log10_ceiling_mono)
  have med_pos': "0 < median ?rho'" using ne' assms(2) by (rule median_pos)
  have med_le: "median ?rho' \<le> median ?rho" using assms(3,1) by (rule median_mono)
  have c_pos': "0 < ?c'" using assms(4,6) by simp
  have c_le: "?c' \<le> ?c" using assms(5,7) by (simp add: min_def)
  have prod_pos': "0 < ?c' * median ?rho'" using c_pos' med_pos' by simp
  have prod_le: "?c' * median ?rho' \<le> ?c * median ?rho"
    using c_le med_le c_pos' med_pos' by (intro mult_mono) linarith+
  have b: "\<lceil>- log 10 (?c * median ?rho)\<rceil> \<le> \<lceil>- log 10 (?c' * median ?rho')\<rceil>"
    using prod_pos' prod_le by (rule neg_log10_ceiling_mono)
  have three: "Min (set ?rho) < 10 \<longrightarrow>
      3 \<le> max \<lceil>- log 10 (Min (set ?rho))\<rceil> \<lceil>- log 10 (?c * median ?rho)\<rceil> + 3"
  proof
    assume "Min (set ?rho) < 10"
    with min_pos have "0 \<le> \<lceil>- log 10 (Min (set ?rho))\<rceil>"
      by (rule neg_log10_ceiling_nonneg)
    then show "3 \<le> max \<lceil>- log 10 (Min (set ?rho))\<rceil> \<lceil>- log 10 (?c * median ?rho)\<rceil> + 3"
      by linarith
  qed
  have le: "max \<lceil>- log 10 (Min (set ?rho))\<rceil> \<lceil>- log 10 (?c * median ?rho)\<rceil> + 3
      \<le> max \<lceil>- log 10 (Min (set ?rho'))\<rceil> \<lceil>- log 10 (?c' * median ?rho')\<rceil> + 3"
    using a b by linarith
  show ?thesis unfolding s s' using le three by blast
qed

text \<open>
  Claim C6. With no precision override, positive rates and positive multipliers: when
  rates or multipliers shrink (the primed inputs are pointwise at most the unprimed ones)
  the selected precision does not decrease, and it is at least 3 when the smallest rate
  is below 10, as it is for probabilities. With rounded operations the same holds when
  the logarithm, the product and the interpolation are monotone, the interpolation of
  positive numbers is positive and the product of the smaller inputs does not round to
  zero; the precision is then at least 3 when the rounded logarithm of the smallest rate
  is not positive.
\<close>

theorem select_precision_monotone:
  assumes "tl rr \<noteq> []"
    and "\<forall>r\<in>set (tl rr'). 0 < r"
    and "list_all2 (\<le>) (tl rr') (tl rr)"
    and "0 < ma'" "ma' \<le> ma" "0 < ms'" "ms' \<le> ms"
  shows "(\<exists>b p b' p'.
      select_precision rr ma ms None = Inr (b, p) \<and>
      select_precision rr' ma' ms' None = Inr (b', p') \<and>
      p \<le> p' \<and> (Min (set (tl rr)) < 10 \<longrightarrow> 3 \<le> p)) \<and>
    ((\<forall>x y. 0 < x \<and> x \<le> y \<longrightarrow> fl_log10 ops x \<le> fl_log10 ops y) \<and>
     (\<forall>x' x y' y. 0 < x' \<and> x' \<le> x \<and> 0 < y' \<and> y' \<le> y \<longrightarrow>
        fl_mul ops x' y' \<le> fl_mul ops x y) \<and>
     (\<forall>a' a b' b g. a' \<le> a \<and> b' \<le> b \<and> 0 \<le> g \<and> g \<le> 1 \<longrightarrow>
        fl_lerp ops a' b' g \<le> fl_lerp ops a b g) \<and>
     (\<forall>a b g. 0 < a \<and> 0 < b \<and> 0 \<le> g \<and> g \<le> 1 \<longrightarrow> 0 < fl_lerp ops a b g) \<and>
     (\<forall>b'. np_quantile_fl ops (tl rr') (1 / 2) = Inr b' \<longrightarrow>
        0 < fl_mul ops (min 1 (min ma' ms')) b') \<longrightarrow>
     (\<exists>b p b' p'.
        select_precision_fl ops rr ma ms None = Inr (b, p) \<and>
        select_precision_fl ops rr' ma' ms' None = Inr (b', p') \<and>
        p \<le> p' \<and> (fl_log10 ops (Min (set (tl rr))) \<le> 0 \<longrightarrow> 3 \<le> p)))"
proof (intro conjI impI)
  show "\<exists>b p b' p'.
      select_precision rr ma ms None = Inr (b, p) \<and>
      select_precision rr' ma' ms' None = Inr (b', p') \<and>
      p \<le> p' \<and> (Min (set (tl rr)) < 10 \<longrightarrow> 3 \<le> p)"
    using assms by (rule select_precision_exact_monotone)
next
  assume h: "(\<forall>x y. 0 < x \<and> x \<le> y \<longrightarrow> fl_log10 ops x \<le> fl_log10 ops y) \<and>
     (\<forall>x' x y' y. 0 < x' \<and> x' \<le> x \<and> 0 < y' \<and> y' \<le> y \<longrightarrow>
        fl_mul ops x' y' \<le> fl_mul ops x y) \<and>
     (\<forall>a' a b' b g. a' \<le> a \<and> b' \<le> b \<and> 0 \<le> g \<and> g \<le> 1 \<longrightarrow>
        fl_lerp ops a' b' g \<le> fl_lerp ops a b g) \<and>
     (\<forall>a b g. 0 < a \<and> 0 < b \<and> 0 \<le> g \<and> g \<le> 1 \<longrightarrow> 0 < fl_lerp ops a b g) \<and>
     (\<forall>b'. np_quantile_fl ops (tl rr') (1 / 2) = Inr b' \<longrightarrow>
        0 < fl_mul ops (min 1 (min ma' ms')) b')"
  have h1: "\<forall>x y. 0 < x \<and> x \<le> y \<longrightarrow> fl_log10 ops x \<le> fl_log10 ops y"
    using h by (rule conjunct1)
  have h2: "\<forall>x' x y' y. 0 < x' \<and> x' \<le> x \<and> 0 < y' \<and> y' \<le> y \<longrightarrow>
        fl_mul ops x' y' \<le> fl_mul ops x y"
    using h by (elim conjE)
  have h3: "\<forall>a' a b' b g. a' \<le> a \<and> b' \<le> b \<and> 0 \<le> g \<and> g \<le> 1 \<longrightarrow>
        fl_lerp ops a' b' g \<le> fl_lerp ops a b g"
    using h by (elim conjE)
  have h4: "\<forall>a b g. 0 < a \<and> 0 < b \<and> 0 \<le> g \<and> g \<le> 1 \<longrightarrow> 0 < fl_lerp ops a b g"
    using h by (elim conjE)
  have h5: "\<forall>b'. np_quantile_fl ops (tl rr') (1 / 2) = Inr b' \<longrightarrow>
        0 < fl_mul ops (min 1 (min ma' ms')) b'"
    using h by (elim conjE)
  show "\<exists>b p b' p'.
        select_precision_fl ops rr ma ms None = Inr (b, p) \<and>
        select_precision_fl ops rr' ma' ms' None = Inr (b', p') \<and>
        p \<le> p' \<and> (fl_log10 ops (Min (set (tl rr))) \<le> 0 \<longrightarrow> 3 \<le> p)"
    using assms h1 h2 h3 h4 h5 by (rule select_precision_fl_monotone)
qed

theorem select_precision_monotone_witness:
  "(\<exists>b p b' p'.
      select_precision [0, 1 / 10] (1 / 10) (1 / 100) None = Inr (b, p) \<and>
      select_precision [0, 1 / 100] (1 / 10) (1 / 1000) None = Inr (b', p') \<and>
      p \<le> p' \<and> 3 \<le> p) \<and>
   (\<exists>b p b' p'.
      select_precision_fl exact_ops [0, 1 / 10] (1 / 10) (1 / 100) None = Inr (b, p) \<and>
      select_precision_fl exact_ops [0, 1 / 100] (1 / 10) (1 / 1000) None = Inr (b', p') \<and>
      p \<le> p' \<and> 3 \<le> p)"
proof -
  have a1: "tl [0, 1 / 10 :: real] \<noteq> []" by simp
  have a2: "\<forall>r\<in>set (tl [0, 1 / 100 :: real]). 0 < r" by simp
  have a3: "list_all2 (\<le>) (tl [0, 1 / 100 :: real]) (tl [0, 1 / 10])" by simp
  have a4: "0 < (1 / 10 :: real)" and a5: "(1 / 10 :: real) \<le> 1 / 10"
    and a6: "0 < (1 / 1000 :: real)" and a7: "(1 / 1000 :: real) \<le> 1 / 100"
    by simp_all
  note inst = select_precision_monotone[of "[0, 1 / 10]" "[0, 1 / 100]" "1 / 10" "1 / 10"
      "1 / 1000" "1 / 100" exact_ops, OF a1 a2 a3 a4 a5 a6 a7]
  have nu: "\<forall>b'. np_quantile_fl exact_ops (tl [0, 1 / 100]) (1 / 2) = Inr b' \<longrightarrow>
      0 < fl_mul exact_ops (min 1 (min (1 / 10) (1 / 1000))) b'"
    by (auto simp: np_quantile_fl_def exact_ops_def)
  have lg: "fl_log10 exact_ops (Min (set (tl [0, 1 / 10]))) \<le> 0"
    using log10_inverse_power[of 1] by (simp add: exact_ops_def)
  have exact: "\<exists>b p b' p'.
      select_precision [0, 1 / 10] (1 / 10) (1 / 100) None = Inr (b, p) \<and>
      select_precision [0, 1 / 100] (1 / 10) (1 / 1000) None = Inr (b', p') \<and>
      p \<le> p' \<and> 3 \<le> p"
    using inst[THEN conjunct1] by simp
  have rounded: "\<exists>b p b' p'.
      select_precision_fl exact_ops [0, 1 / 10] (1 / 10) (1 / 100) None = Inr (b, p) \<and>
      select_precision_fl exact_ops [0, 1 / 100] (1 / 10) (1 / 1000) None = Inr (b', p') \<and>
      p \<le> p' \<and> 3 \<le> p"
    using inst[THEN conjunct2] exact_ops_monotone nu lg by blast
  show ?thesis using exact rounded by (rule conjI)
qed

text \<open>
  The claim as it is written promises at least 3 for every positive rate array. A rate of
  1000 gives the precision 2.
\<close>

theorem select_precision_below_three:
  "select_precision [0, 1000] (1 / 10) (1 / 100) None = Inr (1000, 2)"
proof -
  have a: "log 10 1000 = 3" using log10_power[of 3] by simp
  have b: "log 10 10 = 1" by simp
  have c: "\<lceil>- (1::real)\<rceil> = - 1" by (simp add: ceiling_eq_iff)
  show ?thesis
    by (simp add: select_precision_def np_quantile_def np_min_def np_log10_def Let_def a b c)
qed

section \<open>The statistics of the number of children: the proofs\<close>

text \<open>
  The loop computes the three span-weighted sums over the internal nodes of every tree.
\<close>

lemma fold_count_node_sums:
  "fold (count_node t) ns (s, sq, tot) =
    (s + (\<Sum>n\<leftarrow>filter (\<lambda>n. 0 < num_children t n) ns. real (num_children t n) * span t),
     sq + (\<Sum>n\<leftarrow>filter (\<lambda>n. 0 < num_children t n) ns. real ((num_children t n)\<^sup>2) * span t),
     tot + (\<Sum>n\<leftarrow>filter (\<lambda>n. 0 < num_children t n) ns. span t))"
  by (induction ns arbitrary: s sq tot) (simp_all add: count_node_def Let_def)

lemma fold_trees_sums:
  "fold (\<lambda>tree acc. fold (count_node tree) (nodes tree) acc) ts (s, sq, tot) =
    (s + (\<Sum>t\<leftarrow>ts. \<Sum>n\<leftarrow>filter (\<lambda>n. 0 < num_children t n) (nodes t). real (num_children t n) * span t),
     sq + (\<Sum>t\<leftarrow>ts. \<Sum>n\<leftarrow>filter (\<lambda>n. 0 < num_children t n) (nodes t). real ((num_children t n)\<^sup>2) * span t),
     tot + (\<Sum>t\<leftarrow>ts. \<Sum>n\<leftarrow>filter (\<lambda>n. 0 < num_children t n) (nodes t). span t))"
  by (induction ts arbitrary: s sq tot) (simp_all add: fold_count_node_sums add.assoc)

lemma node_children_sums_eq:
  "node_children_sums ts =
    (\<Sum>t\<leftarrow>ts. \<Sum>n\<leftarrow>filter (\<lambda>n. 0 < num_children t n) (nodes t). real (num_children t n) * span t,
     \<Sum>t\<leftarrow>ts. \<Sum>n\<leftarrow>filter (\<lambda>n. 0 < num_children t n) (nodes t). real ((num_children t n)\<^sup>2) * span t,
     \<Sum>t\<leftarrow>ts. \<Sum>n\<leftarrow>filter (\<lambda>n. 0 < num_children t n) (nodes t). span t)"
  unfolding node_children_sums_def fold_trees_sums by simp

lemma fold_count_node_binary:
  assumes "\<forall>n\<in>set ns. 0 < num_children t n \<longrightarrow> num_children t n = 2"
  shows "fold (count_node t) ns (s, sq, tot) =
    (s + 2 * real (length (filter (\<lambda>n. 0 < num_children t n) ns)) * span t,
     sq + 4 * real (length (filter (\<lambda>n. 0 < num_children t n) ns)) * span t,
     tot + real (length (filter (\<lambda>n. 0 < num_children t n) ns)) * span t)"
  using assms
proof (induction ns arbitrary: s sq tot)
  case Nil
  then show ?case by simp
next
  case (Cons n ns)
  show ?case
  proof (cases "0 < num_children t n")
    case True
    then have two: "num_children t n = 2" using Cons.prems by simp
    have step: "count_node t n (s, sq, tot) = (s + 2 * span t, sq + 4 * span t, tot + span t)"
      by (simp add: count_node_def two)
    show ?thesis using Cons.IH Cons.prems True
      by (simp add: step algebra_simps)
  next
    case False
    then have step: "count_node t n (s, sq, tot) = (s, sq, tot)"
      by (simp add: count_node_def)
    show ?thesis using Cons.IH Cons.prems False by (simp add: step)
  qed
qed

lemma node_children_stats_binary:
  assumes "0 < span t"
    and "\<exists>n\<in>set (nodes t). 0 < num_children t n"
    and "\<forall>n\<in>set (nodes t). 0 < num_children t n \<longrightarrow> num_children t n = 2"
  shows "node_children_stats [t] = Inr (2, 0)"
proof -
  let ?k = "real (length (filter (\<lambda>n. 0 < num_children t n) (nodes t)))"
  have "filter (\<lambda>n. 0 < num_children t n) (nodes t) \<noteq> []"
    using assms(2) by (simp add: filter_empty_conv)
  then have k: "0 < ?k" by simp
  have sums: "node_children_sums [t] = (2 * ?k * span t, 4 * ?k * span t, ?k * span t)"
    using fold_count_node_binary[OF assms(3), of 0 0 0] by (simp add: node_children_sums_def)
  have tot: "?k * span t \<noteq> 0" using k assms(1) by simp
  have m: "2 * ?k * span t / (?k * span t) = 2" using tot by simp
  have v: "4 * ?k * span t / (?k * span t) = 4" using tot by simp
  show ?thesis
    unfolding node_children_stats_def sums using tot by (simp add: Let_def m v)
qed

text \<open>
  Claim C7. A simplified genealogy of exactly one local tree, of positive span, that has
  an internal node and whose internal nodes all have exactly 2 children: the mean number
  of children is 2 and the variance is 0, the statistics being the span-weighted sums of
  \<open>node_children_sums\<close> divided by the total span.
\<close>

theorem node_children_stats_single_binary_tree:
  assumes "0 < span t"
    and "\<exists>n\<in>set (nodes t). 0 < num_children t n"
    and "\<forall>n\<in>set (nodes t). 0 < num_children t n \<longrightarrow> num_children t n = 2"
  shows "node_children_stats [t] = Inr (2, 0)"
  using assms by (rule node_children_stats_binary)

theorem node_children_stats_single_binary_tree_witness:
  "node_children_stats
     [\<lparr>span = 10, nodes = [2, 0, 1], num_children = (\<lambda>n. if n = 2 then 2 else 0)\<rparr>] =
   Inr (2, 0)"
  using node_children_stats_single_binary_tree
    [of "\<lparr>span = 10, nodes = [2, 0, 1], num_children = (\<lambda>n. if n = 2 then 2 else 0)\<rparr>"]
  by simp

text \<open>
  The claim as it is written covers a tree without internal nodes, where all its nodes
  are leaves: there the total span is zero and the division raises.
\<close>

theorem node_children_stats_leaves_only:
  "node_children_stats [\<lparr>span = 1, nodes = [0, 1], num_children = (\<lambda>_. 0)\<rparr>] =
   Inl ZeroDivisionError"
  by (simp add: node_children_stats_def node_children_sums_def count_node_def)

section \<open>Coordinate mapping: the proofs\<close>

subsection \<open>Physical distances\<close>

lemma length_np_diff: "length (np_diff xs) = length xs - 1"
  by (induction xs rule: np_diff.induct) simp_all

lemma setup_sample_file_no_chromosome:
  assumes "endswith filename ''.samples''"
    and "tsinfer_load srv filename = Inr sd"
    and "re_search_chr filename = None"
    and "\<forall>i\<in>set (sites_inference sd). i < length (sites_position sd)"
  shows "setup_sample_file srv filename =
    Inr (sd,
         Finite 0 # map (\<lambda>d. np_divide d (sequence_length sd))
            (np_diff (map (\<lambda>i. sites_position sd ! i) (sites_inference sd))),
         take (length filename - length ''.samples'') filename)"
proof -
  have tk: "np_take (sites_position sd) (sites_inference sd) =
      Inr (map (\<lambda>i. sites_position sd ! i) (sites_inference sd))"
    using assms(4) by (auto simp: np_take_def)
  show ?thesis
    unfolding setup_sample_file_def using assms(1-3) by (simp add: tk)
qed

text \<open>
  Claim C5. A file name without a chromosome token: the claim, as the help text of the
  program (otherwise use the physical distance between sites), gives the rate array as
  the sentinel 0 followed by the successive differences of the positions of the inference
  sites, each divided by the sequence length, of the length of the number of inference
  sites. The program indexes the positions with the stored flags, which are integers, so
  it takes the position at index 1 once for every inference site (and the position at
  index 0 for every other site). On the five sites at 0, 100, 500, 2000 and 9999, all for
  inference, with sequence length 10000, the rate array of the program is five zeros,
  where the claim gives 0, 0.01, 0.04, 0.15 and 0.7999.
\<close>

theorem setup_sample_file_integer_indexing:
  "setup_sample_file
     \<lparr>tsinfer_load = (\<lambda>_. Inr \<lparr>path = Some ''a.samples'',
                                  sites_position = [0, 100, 500, 2000, 9999],
                                  sites_inference = [1, 1, 1, 1, 1],
                                  sequence_length = 10000\<rparr>),
      get_chromosome_map = (\<lambda>_. Inl (OtherError ''no map''))\<rparr>
     ''a.samples'' =
   Inr (\<lparr>path = Some ''a.samples'', sites_position = [0, 100, 500, 2000, 9999],
          sites_inference = [1, 1, 1, 1, 1], sequence_length = 10000\<rparr>,
        [Finite 0, Finite 0, Finite 0, Finite 0, Finite 0],
        ''a'')"
  by (simp add: setup_sample_file_def endswith_def match_chr_def np_take_def np_divide_def)

text \<open>
  With a site that is not for inference the differences can be negative, and the array
  has an entry for every site: on the sites at 0 and 100 with the flags 1 and 0 the
  program takes the positions 100 and 0, and its rate array is 0, -0.01.
\<close>

lemma setup_sample_file_flags_as_indices:
  "setup_sample_file
     \<lparr>tsinfer_load = (\<lambda>_. Inr \<lparr>path = Some ''a.samples'', sites_position = [0, 100],
                                  sites_inference = [1, 0], sequence_length = 10000\<rparr>),
      get_chromosome_map = (\<lambda>_. Inl (OtherError ''no map''))\<rparr>
     ''a.samples'' =
   Inr (\<lparr>path = Some ''a.samples'', sites_position = [0, 100],
          sites_inference = [1, 0], sequence_length = 10000\<rparr>,
        [Finite 0, Finite (- (1 / 100))],
        ''a'')"
  by (simp add: setup_sample_file_def endswith_def match_chr_def np_take_def np_divide_def)

subsection \<open>Genetic distances\<close>

lemma length_np_cumsum_from: "length (np_cumsum_from acc xs) = length xs"
  by (induction xs arbitrary: acc) simp_all

lemma genetic_position_before:
  assumes "sorted (map fst bps)" "bps \<noteq> []" "x \<le> fst (hd bps)"
  shows "genetic_position bps x = 0"
  using assms
proof (induction bps x rule: genetic_position.induct)
  case (1 p0 r0 p1 r1 rest x)
  have "x \<le> p1" using "1.prems" by simp
  then have "genetic_position ((p1, r1) # rest) x = 0"
    using "1.IH" "1.prems"(1) by simp
  moreover have "max 0 (min x p1 - p0) = 0" using "1.prems"(3) by simp
  ultimately show ?case by simp
qed simp_all

lemma genetic_table_step:
  "zip (map fst ((p0, r0) # (p1, r1) # rest))
     (g # np_cumsum_from g (map2 (*) (np_diff (map fst ((p0, r0) # (p1, r1) # rest)))
                                     (butlast (map snd ((p0, r0) # (p1, r1) # rest))))) =
   (p0, g) #
   zip (map fst ((p1, r1) # rest))
     ((g + (p1 - p0) * r0) #
      np_cumsum_from (g + (p1 - p0) * r0)
        (map2 (*) (np_diff (map fst ((p1, r1) # rest))) (butlast (map snd ((p1, r1) # rest)))))"
  by simp

lemma interp_at_genetic:
  assumes "sorted_wrt (<) (map fst bps)" "bps \<noteq> []" "fst (hd bps) \<le> x"
  shows "interp_at x (zip (map fst bps)
            (g # np_cumsum_from g (map2 (*) (np_diff (map fst bps)) (butlast (map snd bps))))) =
         g + genetic_position bps x"
  using assms
proof (induction bps x arbitrary: g rule: genetic_position.induct)
  case (1 p0 r0 p1 r1 rest x)
  let ?g' = "g + (p1 - p0) * r0"
  let ?rest = "(p1, r1) # rest"
  let ?tab = "zip (map fst ?rest)
     (?g' # np_cumsum_from ?g' (map2 (*) (np_diff (map fst ?rest)) (butlast (map snd ?rest))))"
  have lt: "p0 < p1" using "1.prems"(1) by simp
  have srt: "sorted_wrt (<) (map fst ?rest)" using "1.prems"(1) by simp
  obtain T where T: "?tab = (p1, ?g') # T" by simp
  have start: "interp_at x (zip (map fst ((p0, r0) # ?rest))
      (g # np_cumsum_from g (map2 (*) (np_diff (map fst ((p0, r0) # ?rest)))
                                       (butlast (map snd ((p0, r0) # ?rest)))))) =
      interp_at x ((p0, g) # (p1, ?g') # T)"
    by (simp only: genetic_table_step T)
  show ?case
  proof (cases "x < p1")
    case True
    have "sorted (map fst ?rest)"
      using srt by (rule strict_sorted_imp_sorted)
    then have z: "genetic_position ?rest x = 0"
      using True by (intro genetic_position_before) simp_all
    have mx: "max 0 (min x p1 - p0) = x - p0" using True "1.prems"(3) by simp
    have "interp_at x ((p0, g) # (p1, ?g') # T) = (?g' - g) / (p1 - p0) * (x - p0) + g"
      using True by simp
    also have "\<dots> = g + r0 * (x - p0)" using lt by (simp add: field_simps)
    also have "\<dots> = g + genetic_position ((p0, r0) # ?rest) x"
      by (simp only: genetic_position.simps mx z add_0_right)
    finally show ?thesis using start by simp
  next
    case False
    then have ge: "fst (hd ?rest) \<le> x" by simp
    have mx: "max 0 (min x p1 - p0) = p1 - p0" using False lt by simp
    have "interp_at x ((p0, g) # (p1, ?g') # T) = interp_at x ((p1, ?g') # T)"
      using False by simp
    also have "\<dots> = interp_at x ?tab" by (simp only: T)
    also have "\<dots> = ?g' + genetic_position ?rest x"
      using srt _ ge by (rule "1.IH") simp
    also have "\<dots> = g + genetic_position ((p0, r0) # ?rest) x"
      by (simp only: genetic_position.simps mx) (simp add: algebra_simps)
    finally show ?thesis using start by simp
  qed
qed simp_all

lemma physical_to_genetic_value:
  assumes "get_positions m \<noteq> []"
    and "sorted_wrt (<) (get_positions m)"
    and "length (get_rates m) = length (get_positions m)"
  shows "physical_to_genetic m xs =
    Inr (map (genetic_position (zip (get_positions m) (get_rates m))) xs)"
proof -
  let ?ps = "get_positions m" and ?rs = "get_rates m"
  let ?bps = "zip ?ps ?rs"
  let ?steps = "map2 (*) (np_diff ?ps) (butlast ?rs)"
  let ?fp = "0 # np_cumsum ?steps"
  have fst: "map fst ?bps = ?ps" and snd: "map snd ?bps = ?rs"
    using assms(3) by simp_all
  have ne: "?bps \<noteq> []" using assms(1,3) by (cases ?ps; cases ?rs) auto
  have hd: "fst (hd ?bps) = hd ?ps" using assms(1,3) by (cases ?ps; cases ?rs) auto
  have len: "length (np_diff ?ps) = length (butlast ?rs)"
    using assms(3) by (simp add: length_np_diff)
  have mul: "np_multiply (np_diff ?ps) (butlast ?rs) = Inr ?steps"
    using len by (simp add: np_multiply_def)
  have lenfp: "length ?fp = length ?ps"
    using assms(1,3) by (simp add: np_cumsum_def length_np_cumsum_from length_np_diff)
  have srt: "sorted_wrt (<) (map fst ?bps)" using assms(2) fst by simp
  have val: "(if v < hd ?ps then hd ?fp else interp_at v (zip ?ps ?fp)) = genetic_position ?bps v" for v
  proof (cases "v < hd ?ps")
    case True
    have "sorted (map fst ?bps)" using srt by (rule strict_sorted_imp_sorted)
    then have "genetic_position ?bps v = 0"
      using ne True hd by (intro genetic_position_before) simp_all
    then show ?thesis using True by simp
  next
    case False
    then have "fst (hd ?bps) \<le> v" using hd by simp
    then have "interp_at v (zip (map fst ?bps)
        (0 # np_cumsum_from 0 (map2 (*) (np_diff (map fst ?bps)) (butlast (map snd ?bps))))) =
        0 + genetic_position ?bps v"
      using srt ne by (intro interp_at_genetic)
    then show ?thesis using False by (simp only: fst snd np_cumsum_def) simp
  qed
  have "np_interp xs ?ps ?fp = Inr (map (genetic_position ?bps) xs)"
    unfolding np_interp_def using assms(1) lenfp val by simp
  then show ?thesis
    unfolding physical_to_genetic_def Let_def mul by simp
qed

lemma genetic_position_segment:
  assumes "sorted_wrt (<) ps" "length rs = length ps" "Suc k < length ps"
    and "ps ! k \<le> x" "x \<le> ps ! Suc k"
  shows "genetic_position (zip ps rs) x =
    (\<Sum>i<k. (ps ! Suc i - ps ! i) * rs ! i) + (x - ps ! k) * rs ! k"
  using assms
proof (induction ps arbitrary: rs k)
  case Nil
  then show ?case by simp
next
  case (Cons p0 ps')
  obtain p1 ps'' where ps': "ps' = p1 # ps''"
    using Cons.prems(3) by (cases ps') auto
  obtain r0 r1 rs'' where rs: "rs = r0 # r1 # rs''"
    using Cons.prems(2) ps' by (cases rs; cases "tl rs") auto
  have srt': "sorted_wrt (<) ps'" using Cons.prems(1) by simp
  have len': "length (r1 # rs'') = length ps'" using Cons.prems(2) rs by simp
  have unfold: "genetic_position (zip (p0 # ps') rs) x =
      r0 * max 0 (min x p1 - p0) + genetic_position (zip ps' (r1 # rs'')) x"
    by (simp add: ps' rs)
  show ?case
  proof (cases k)
    case 0
    have x: "p0 \<le> x" "x \<le> p1" using Cons.prems(4,5) 0 ps' by simp_all
    have "sorted (map fst (zip ps' (r1 # rs'')))"
      using srt' len' by (simp add: strict_sorted_imp_sorted)
    then have "genetic_position (zip ps' (r1 # rs'')) x = 0"
      using x(2) ps' by (intro genetic_position_before) simp_all
    moreover have "max 0 (min x p1 - p0) = x - p0" using x by simp
    ultimately show ?thesis using unfold 0 by (simp add: rs)
  next
    case (Suc j)
    have j: "Suc j < length ps'" using Cons.prems(3) Suc by simp
    have xj: "ps' ! j \<le> x" "x \<le> ps' ! Suc j" using Cons.prems(4,5) Suc by simp_all
    have "p1 \<le> ps' ! j"
    proof (cases j)
      case 0
      then show ?thesis by (simp add: ps')
    next
      case (Suc j')
      have "0 < j" "j < length ps'" using j Suc by simp_all
      with srt' have "ps' ! 0 < ps' ! j" by (rule sorted_wrt_nth_less)
      then show ?thesis by (simp add: ps')
    qed
    then have "p1 \<le> x" using xj(1) by linarith
    moreover have "p0 < p1" using Cons.prems(1) ps' by simp
    ultimately have mx: "max 0 (min x p1 - p0) = p1 - p0" by simp
    have ih: "genetic_position (zip ps' (r1 # rs'')) x =
        (\<Sum>i<j. (ps' ! Suc i - ps' ! i) * (r1 # rs'') ! i) + (x - ps' ! j) * (r1 # rs'') ! j"
      using srt' len' j xj by (rule Cons.IH)
    have "(\<Sum>i<Suc j. ((p0 # ps') ! Suc i - (p0 # ps') ! i) * rs ! i) =
        (p1 - p0) * r0 + (\<Sum>i<j. (ps' ! Suc i - ps' ! i) * (r1 # rs'') ! i)"
      by (simp add: sum.lessThan_Suc_shift ps' rs del: sum.lessThan_Suc)
    then show ?thesis using unfold ih mx Suc by (simp add: rs algebra_simps)
  qed
qed

lemma genetic_position_first:
  assumes "sorted_wrt (<) ps" "length rs = length ps" "ps \<noteq> []"
  shows "genetic_position (zip ps rs) (hd ps) = 0"
proof -
  have "sorted (map fst (zip ps rs))"
    using assms(1,2) by (simp add: strict_sorted_imp_sorted)
  moreover have "zip ps rs \<noteq> []" using assms(2,3) by (cases ps; cases rs) auto
  moreover have "fst (hd (zip ps rs)) = hd ps" using assms(2,3) by (cases ps; cases rs) auto
  ultimately show ?thesis by (intro genetic_position_before) simp_all
qed

lemma setup_sample_file_genetic:
  assumes "endswith filename ''.samples''"
    and "tsinfer_load srv filename = Inr sd"
    and "re_search_chr filename = Some chr"
    and "get_chromosome_map srv chr = Inr m"
    and "np_take (sites_position sd) (sites_inference sd) = Inr queries"
    and "get_positions m \<noteq> []"
    and "sorted_wrt (<) (get_positions m)"
    and "length (get_rates m) = length (get_positions m)"
  shows "setup_sample_file srv filename =
    Inr (sd,
         Finite 0 # map Finite (np_diff
            (map (genetic_position (zip (get_positions m) (get_rates m))) queries)),
         take (length filename - length ''.samples'') filename)"
  unfolding setup_sample_file_def using assms(1-5)
  by (simp add: physical_to_genetic_value[OF assms(6-8)])

text \<open>
  Claim C8. For a recombination map (at least one breakpoint, positions strictly
  increasing, one rate per breakpoint) and any query positions, the conversion gives the
  genetic position of each query: 0 at the first breakpoint and, for a query between the
  breakpoints \<open>k\<close> and \<open>k + 1\<close>, the sum of \<open>(\<Delta> physical) * rate\<close> over the intervals
  before breakpoint \<open>k\<close> plus the rate of interval \<open>k\<close> times the distance from breakpoint
  \<open>k\<close>. With a chromosome token in the file name the rate array is the sentinel 0
  followed by the successive differences of the genetic positions of the queries, which
  are the positions that the indexing \<open>sites_position[:][sites_inference]\<close> yields.
\<close>

theorem physical_to_genetic_cumulative:
  assumes "get_positions m \<noteq> []"
    and "sorted_wrt (<) (get_positions m)"
    and "length (get_rates m) = length (get_positions m)"
  shows "physical_to_genetic m xs =
      Inr (map (genetic_position (zip (get_positions m) (get_rates m))) xs) \<and>
    genetic_position (zip (get_positions m) (get_rates m)) (hd (get_positions m)) = 0 \<and>
    (\<forall>k x. Suc k < length (get_positions m) \<and> get_positions m ! k \<le> x \<and>
            x \<le> get_positions m ! Suc k \<longrightarrow>
       genetic_position (zip (get_positions m) (get_rates m)) x =
         (\<Sum>i<k. (get_positions m ! Suc i - get_positions m ! i) * get_rates m ! i) +
         (x - get_positions m ! k) * get_rates m ! k) \<and>
    (\<forall>srv filename sd chr queries.
       endswith filename ''.samples'' \<and> tsinfer_load srv filename = Inr sd \<and>
       re_search_chr filename = Some chr \<and> get_chromosome_map srv chr = Inr m \<and>
       np_take (sites_position sd) (sites_inference sd) = Inr queries \<longrightarrow>
       setup_sample_file srv filename =
         Inr (sd,
              Finite 0 # map Finite (np_diff
                (map (genetic_position (zip (get_positions m) (get_rates m))) queries)),
              take (length filename - length ''.samples'') filename))"
proof (intro conjI allI impI)
  show "physical_to_genetic m xs =
      Inr (map (genetic_position (zip (get_positions m) (get_rates m))) xs)"
    using assms by (rule physical_to_genetic_value)
next
  show "genetic_position (zip (get_positions m) (get_rates m)) (hd (get_positions m)) = 0"
    using assms(2,3,1) by (rule genetic_position_first)
next
  fix k x
  assume "Suc k < length (get_positions m) \<and> get_positions m ! k \<le> x \<and>
      x \<le> get_positions m ! Suc k"
  then show "genetic_position (zip (get_positions m) (get_rates m)) x =
      (\<Sum>i<k. (get_positions m ! Suc i - get_positions m ! i) * get_rates m ! i) +
      (x - get_positions m ! k) * get_rates m ! k"
    using genetic_position_segment[OF assms(2,3), of k x] by blast
next
  fix srv :: services and filename :: string and sd :: sample_data and chr :: string
    and queries :: "real list"
  assume "endswith filename ''.samples'' \<and> tsinfer_load srv filename = Inr sd \<and>
      re_search_chr filename = Some chr \<and> get_chromosome_map srv chr = Inr m \<and>
      np_take (sites_position sd) (sites_inference sd) = Inr queries"
  then show "setup_sample_file srv filename =
      Inr (sd,
           Finite 0 # map Finite (np_diff
             (map (genetic_position (zip (get_positions m) (get_rates m))) queries)),
           take (length filename - length ''.samples'') filename)"
    using setup_sample_file_genetic[of filename srv sd chr m queries] assms by blast
qed

text \<open>
  A map of two intervals, of the rates 0.01 and 0.02. On the sites at 50, 70, 100 and 150
  with the flags 1, 0, 1, 1 the queries are the positions at the indices 1, 0, 1, 1: the
  positions 70, 50, 70, 70, of the genetic positions 0.7, 0.5, 0.7, 0.7.
\<close>

theorem physical_to_genetic_cumulative_witness:
  "physical_to_genetic \<lparr>get_positions = [0, 100, 200], get_rates = [1 / 100, 1 / 50, 0]\<rparr>
      [50, 100, 150, 250] = Inr [1 / 2, 1, 2, 3] \<and>
   setup_sample_file
     \<lparr>tsinfer_load = (\<lambda>_. Inr \<lparr>path = Some ''chr20.samples'',
                                  sites_position = [50, 70, 100, 150],
                                  sites_inference = [1, 0, 1, 1],
                                  sequence_length = 200\<rparr>),
      get_chromosome_map =
        (\<lambda>_. Inr \<lparr>get_positions = [0, 100, 200], get_rates = [1 / 100, 1 / 50, 0]\<rparr>)\<rparr>
     ''chr20.samples'' =
   Inr (\<lparr>path = Some ''chr20.samples'', sites_position = [50, 70, 100, 150],
          sites_inference = [1, 0, 1, 1], sequence_length = 200\<rparr>,
        [Finite 0, Finite (- (1 / 5)), Finite (1 / 5), Finite 0], ''chr20'')"
proof -
  let ?m = "\<lparr>get_positions = [0, 100, 200], get_rates = [1 / 100, 1 / 50, 0]\<rparr>"
  let ?sd = "\<lparr>path = Some ''chr20.samples'', sites_position = [50, 70, 100, 150],
          sites_inference = [1, 0, 1, 1], sequence_length = 200\<rparr>"
  let ?srv = "\<lparr>tsinfer_load = (\<lambda>_. Inr ?sd), get_chromosome_map = (\<lambda>_. Inr ?m)\<rparr>"
  have p: "get_positions ?m \<noteq> []" "sorted_wrt (<) (get_positions ?m)"
    "length (get_rates ?m) = length (get_positions ?m)" by simp_all
  note inst = physical_to_genetic_cumulative[OF p, of "[50, 100, 150, 250]"]
  have a: "physical_to_genetic ?m [50, 100, 150, 250] = Inr [1 / 2, 1, 2, 3]"
    using inst by simp
  have re: "re_search_chr ''chr20.samples'' = Some ''chr20''"
    by (simp add: match_chr_def is_digit_def)
  have h: "endswith ''chr20.samples'' ''.samples'' \<and>
      tsinfer_load ?srv ''chr20.samples'' = Inr ?sd \<and>
      re_search_chr ''chr20.samples'' = Some ''chr20'' \<and>
      get_chromosome_map ?srv ''chr20'' = Inr ?m \<and>
      np_take (sites_position ?sd) (sites_inference ?sd) = Inr [70, 50, 70, 70]"
    using re by (simp add: endswith_def np_take_def)
  from inst have "\<forall>srv filename sd chr queries.
       endswith filename ''.samples'' \<and> tsinfer_load srv filename = Inr sd \<and>
       re_search_chr filename = Some chr \<and> get_chromosome_map srv chr = Inr ?m \<and>
       np_take (sites_position sd) (sites_inference sd) = Inr queries \<longrightarrow>
       setup_sample_file srv filename =
         Inr (sd,
              Finite 0 # map Finite (np_diff
                (map (genetic_position (zip (get_positions ?m) (get_rates ?m))) queries)),
              take (length filename - length ''.samples'') filename)"
    by blast
  then have "setup_sample_file ?srv ''chr20.samples'' =
         Inr (?sd,
              Finite 0 # map Finite (np_diff
                (map (genetic_position (zip (get_positions ?m) (get_rates ?m)))
                   [70, 50, 70, 70])),
              take (length ''chr20.samples'' - length ''.samples'') ''chr20.samples'')"
    using h by blast
  then have b: "setup_sample_file ?srv ''chr20.samples'' =
      Inr (?sd, [Finite 0, Finite (- (1 / 5)), Finite (1 / 5), Finite 0], ''chr20'')"
    by simp
  show ?thesis using a b by (rule conjI)
qed

section \<open>The pipeline: the proofs\<close>

subsection \<open>The shape of a run\<close>

lemma then_t_call_Inl: "then_t (call ev (Inl e)) k = ([ev], Inl e)"
  by (simp add: then_t_def call_def)

lemma then_t_call_Inr: "then_t (call ev (Inr a)) k = (ev # fst (k a), snd (k a))"
  by (simp add: then_t_def call_def)

lemma then_t_pure_Inl: "then_t ([], Inl e) k = ([], Inl e)"
  by (simp add: then_t_def)

lemma then_t_pure_Inr: "then_t ([], Inr a) k = k a"
  by (simp add: then_t_def)

lemmas then_t_simps = then_t_call_Inl then_t_call_Inr then_t_pure_Inl then_t_pure_Inr

lemma load_and_kc_events:
  "fst (load_and_kc eng s f) = [Call_load f] \<or>
   fst (load_and_kc eng s f) = [Call_load f, Call_kc_distance]"
  by (simp add: load_and_kc_def split: sum.splits option.splits)

lemma summarise_events:
  "\<forall>ev\<in>set (fst (summarise eng p prec prefix ipre t0 ts)).
      (\<forall>a. ev \<noteq> Call_match_ancestors a \<and> ev \<noteq> Call_match_samples a) \<and>
      (\<forall>th pth. ev \<noteq> Call_generate_ancestors th pth)"
proof (cases "dump eng ts (ipre @ ''.trees'')")
  case (Inl e)
  then show ?thesis by (simp add: summarise_def Let_def then_t_simps)
next
  case d: (Inr u)
  show ?thesis
  proof (cases "simplify eng ts")
    case (Inl e)
    then show ?thesis using d by (simp add: summarise_def Let_def then_t_simps)
  next
    case s: (Inr sts)
    show ?thesis
    proof (cases "node_children_stats (trees eng sts)")
      case (Inl e)
      then show ?thesis using d s by (simp add: summarise_def Let_def then_t_simps)
    next
      case st: (Inr mv)
      obtain m v where mv: "mv = (m, v)" by (cases mv)
      have ev: "\<forall>ev\<in>set (fst (load_and_kc eng sts (prefix @ ''.trees''))).
          (\<forall>a. ev \<noteq> Call_match_ancestors a \<and> ev \<noteq> Call_match_samples a) \<and>
          (\<forall>th pth. ev \<noteq> Call_generate_ancestors th pth)"
        using load_and_kc_events[of eng sts "prefix @ ''.trees''"] by auto
      show ?thesis
      proof (cases "snd (load_and_kc eng sts (prefix @ ''.trees''))")
        case (Inl e)
        then show ?thesis using d s st mv ev
          by (simp add: summarise_def Let_def then_t_simps) (simp add: then_t_def)
      next
        case k: (Inr kcv)
        show ?thesis
        proof (cases "getsize eng (ipre @ ''.trees'')")
          case (Inl e)
          then show ?thesis using d s st mv ev k
            by (simp add: summarise_def Let_def then_t_simps) (simp add: then_t_def call_def)
        next
          case (Inr sz)
          then show ?thesis using d s st mv ev k
            by (simp add: summarise_def Let_def then_t_simps) (simp add: then_t_def call_def)
        qed
      qed
    qed
  qed
qed


lemma run_shape:
  fixes eng :: "('anc, 'ts) engine" and p :: params
  obtains (early) e where "run eng p = ([], Inl e)"
  | (staged) base prec prefix ipre where
      "select_precision_fl (arith eng) (rec_rate p) (ma_mut_rate p) (ms_mut_rate p) (precision p) =
         Inr (base, prec)"
      "name_prefixes (str_float eng) p prec = Inr (Some (prefix, ipre))"
      "run eng p =
         then_t (call (Call_generate_ancestors (num_threads p) (Some (ipre @ ''.ancestors'')))
                  (generate_ancestors eng (sample_data p) (num_threads p)
                     (Some (ipre @ ''.ancestors''))))
          (\<lambda>anc.
         then_t (call (Call_match_ancestors
                    (matching_args p prec (fl_mul (arith eng) base (ma_mut_rate p))))
                  (match_ancestors eng (sample_data p) anc
                    (matching_args p prec (fl_mul (arith eng) base (ma_mut_rate p)))))
          (\<lambda>inferred_anc_ts.
         then_t (call (Call_dump (ipre @ ''.atrees''))
                  (dump eng inferred_anc_ts (ipre @ ''.atrees'')))
          (\<lambda>_.
         then_t (call (Call_match_samples
                    (matching_args p prec (fl_mul (arith eng) base (ms_mut_rate p))))
                  (match_samples eng (sample_data p) inferred_anc_ts
                    (matching_args p prec (fl_mul (arith eng) base (ms_mut_rate p)))))
          (\<lambda>inferred_ts.
         summarise eng p prec prefix ipre (clock_reading eng 0) inferred_ts))))"
proof (cases "select_precision_fl (arith eng) (rec_rate p) (ma_mut_rate p) (ms_mut_rate p) (precision p)")
  case (Inl e)
  then have "run eng p = ([], Inl e)" by (simp add: run_def)
  then show ?thesis by (rule early)
next
  case (Inr bp)
  obtain base prec where bp: "bp = (base, prec)" by (cases bp)
  note sel = Inr[unfolded bp]
  show ?thesis
  proof (cases "name_prefixes (str_float eng) p prec")
    case (Inl e)
    then have "run eng p = ([], Inl e)" using sel by (simp add: run_def)
    then show ?thesis by (rule early)
  next
    case nam: (Inr opt)
    show ?thesis
    proof (cases opt)
      case None
      then have "run eng p = ([], Inl UnboundLocalError)" using sel nam by (simp add: run_def)
      then show ?thesis by (rule early)
    next
      case (Some pp)
      obtain prefix ipre where pp: "pp = (prefix, ipre)" by (cases pp)
      have nam': "name_prefixes (str_float eng) p prec = Inr (Some (prefix, ipre))"
        using nam Some pp by simp
      show ?thesis
        by (rule staged[OF sel nam']) (simp add: run_def sel nam' Let_def)
    qed
  qed
qed


lemma run_outcomes:
  fixes eng :: "('anc, 'ts) engine" and p :: params
  obtains (early) e where "run eng p = ([], Inl e)"
  | (ga_fail) base prec ipre e where
      "select_precision_fl (arith eng) (rec_rate p) (ma_mut_rate p) (ms_mut_rate p) (precision p) =
         Inr (base, prec)"
      "generate_ancestors eng (sample_data p) (num_threads p) (Some (ipre @ ''.ancestors'')) =
         Inl e"
      "run eng p =
         ([Call_generate_ancestors (num_threads p) (Some (ipre @ ''.ancestors''))], Inl e)"
  | (ma_fail) base prec ipre anc e where
      "select_precision_fl (arith eng) (rec_rate p) (ma_mut_rate p) (ms_mut_rate p) (precision p) =
         Inr (base, prec)"
      "generate_ancestors eng (sample_data p) (num_threads p) (Some (ipre @ ''.ancestors'')) =
         Inr anc"
      "match_ancestors eng (sample_data p) anc (matching_args p prec (fl_mul (arith eng) base (ma_mut_rate p))) =
         Inl e"
      "run eng p =
         ([Call_generate_ancestors (num_threads p) (Some (ipre @ ''.ancestors'')),
           Call_match_ancestors (matching_args p prec (fl_mul (arith eng) base (ma_mut_rate p)))], Inl e)"
  | (dump_fail) base prec ipre anc ats e where
      "select_precision_fl (arith eng) (rec_rate p) (ma_mut_rate p) (ms_mut_rate p) (precision p) =
         Inr (base, prec)"
      "generate_ancestors eng (sample_data p) (num_threads p) (Some (ipre @ ''.ancestors'')) =
         Inr anc"
      "match_ancestors eng (sample_data p) anc (matching_args p prec (fl_mul (arith eng) base (ma_mut_rate p))) =
         Inr ats"
      "run eng p =
         ([Call_generate_ancestors (num_threads p) (Some (ipre @ ''.ancestors'')),
           Call_match_ancestors (matching_args p prec (fl_mul (arith eng) base (ma_mut_rate p))),
           Call_dump (ipre @ ''.atrees'')], Inl e)"
  | (ms_fail) base prec ipre anc ats e where
      "select_precision_fl (arith eng) (rec_rate p) (ma_mut_rate p) (ms_mut_rate p) (precision p) =
         Inr (base, prec)"
      "generate_ancestors eng (sample_data p) (num_threads p) (Some (ipre @ ''.ancestors'')) =
         Inr anc"
      "match_ancestors eng (sample_data p) anc (matching_args p prec (fl_mul (arith eng) base (ma_mut_rate p))) =
         Inr ats"
      "dump eng ats (ipre @ ''.atrees'') = Inr ()"
      "match_samples eng (sample_data p) ats (matching_args p prec (fl_mul (arith eng) base (ms_mut_rate p))) =
         Inl e"
      "run eng p =
         ([Call_generate_ancestors (num_threads p) (Some (ipre @ ''.ancestors'')),
           Call_match_ancestors (matching_args p prec (fl_mul (arith eng) base (ma_mut_rate p))),
           Call_dump (ipre @ ''.atrees''),
           Call_match_samples (matching_args p prec (fl_mul (arith eng) base (ms_mut_rate p)))], Inl e)"
  | (ms_ok) base prec prefix ipre anc ats ts where
      "select_precision_fl (arith eng) (rec_rate p) (ma_mut_rate p) (ms_mut_rate p) (precision p) =
         Inr (base, prec)"
      "name_prefixes (str_float eng) p prec = Inr (Some (prefix, ipre))"
      "generate_ancestors eng (sample_data p) (num_threads p) (Some (ipre @ ''.ancestors'')) =
         Inr anc"
      "match_ancestors eng (sample_data p) anc (matching_args p prec (fl_mul (arith eng) base (ma_mut_rate p))) =
         Inr ats"
      "dump eng ats (ipre @ ''.atrees'') = Inr ()"
      "match_samples eng (sample_data p) ats (matching_args p prec (fl_mul (arith eng) base (ms_mut_rate p))) =
         Inr ts"
      "run eng p =
         (Call_generate_ancestors (num_threads p) (Some (ipre @ ''.ancestors'')) #
          Call_match_ancestors (matching_args p prec (fl_mul (arith eng) base (ma_mut_rate p))) #
          Call_dump (ipre @ ''.atrees'') #
          Call_match_samples (matching_args p prec (fl_mul (arith eng) base (ms_mut_rate p))) #
          fst (summarise eng p prec prefix ipre (clock_reading eng 0) ts),
          snd (summarise eng p prec prefix ipre (clock_reading eng 0) ts))"
proof (cases rule: run_shape[of eng p])
  case (early e)
  then show ?thesis by (rule that(1))
next
  case (staged base prec prefix ipre)
  note sel = staged(1) and nam = staged(2) and run = staged(3)
  show ?thesis
  proof (cases "generate_ancestors eng (sample_data p) (num_threads p) (Some (ipre @ ''.ancestors''))")
    case (Inl e)
    show ?thesis
      by (rule that(2)[OF sel Inl]) (simp add: run Inl then_t_simps)
  next
    case ga: (Inr anc)
    show ?thesis
    proof (cases "match_ancestors eng (sample_data p) anc (matching_args p prec (fl_mul (arith eng) base (ma_mut_rate p)))")
      case (Inl e)
      show ?thesis
        by (rule that(3)[OF sel ga Inl]) (simp add: run ga Inl then_t_simps)
    next
      case ma: (Inr ats)
      show ?thesis
      proof (cases "dump eng ats (ipre @ ''.atrees'')")
        case (Inl e)
        show ?thesis
          by (rule that(4)[OF sel ga ma]) (simp add: run ga ma Inl then_t_simps)
      next
        case (Inr u)
        then have d: "dump eng ats (ipre @ ''.atrees'') = Inr ()" by simp
        show ?thesis
        proof (cases "match_samples eng (sample_data p) ats (matching_args p prec (fl_mul (arith eng) base (ms_mut_rate p)))")
          case (Inl e)
          show ?thesis
            by (rule that(5)[OF sel ga ma d Inl]) (simp add: run ga ma d Inl then_t_simps)
        next
          case ms: (Inr ts)
          show ?thesis
            by (rule that(6)[OF sel nam ga ma d ms]) (simp add: run ga ma d ms then_t_simps)
        qed
      qed
    qed
  qed
qed


lemma summarise_no_stage:
  "Call_match_ancestors a \<notin> set (fst (summarise eng p prec prefix ipre t0 ts))"
  "Call_match_samples a \<notin> set (fst (summarise eng p prec prefix ipre t0 ts))"
  "Call_generate_ancestors th pth \<notin> set (fst (summarise eng p prec prefix ipre t0 ts))"
  using summarise_events[of eng p prec prefix ipre t0 ts] by blast+

lemma select_precision_base:
  assumes "select_precision_fl ops rr ma ms ov = Inr (base, prec)"
  shows "np_quantile_fl ops (tl rr) (1 / 2) = Inr base \<and> (\<forall>q. ov = Some q \<longrightarrow> prec = q)"
  using assms
  by (auto simp: select_precision_fl_def Let_def split: option.splits sum.splits)

lemma np_quantile_fl_median:
  assumes "np_quantile_fl ops xs (1 / 2) = Inr base"
    and "\<forall>a b g. fl_lerp ops a b g = a + (b - a) * g"
  shows "base = median xs"
proof -
  have "xs \<noteq> []" using assms(1) by (auto simp: np_quantile_fl_def)
  then have "np_quantile_fl ops xs (1 / 2) = Inr (median xs)"
    using assms(2) by (rule np_quantile_fl_exact_lerp)
  then show ?thesis using assms(1) by simp
qed

lemma name_prefixes_Some:
  assumes "name_prefixes fmt p prec = Inr (Some (prefix, ipre))"
  shows "\<exists>pth. path (sample_data p) = Some pth \<and> endswith pth ''.samples'' \<and>
      prefix = take (length pth - length ''.samples'') pth \<and>
      ipre = prefix @ ''_ma'' @ fmt (ma_mut_rate p) @ ''_ms'' @ fmt (ms_mut_rate p) @
               ''_p'' @ str_int prec"
  using assms
  by (cases "path (sample_data p)")
     (auto simp: name_prefixes_def Let_def split: if_splits)

lemma summarise_cases:
  fixes eng :: "('anc, 'ts) engine"
  obtains (before_load) e tr where
      "summarise eng p prec prefix ipre t0 ts = (tr, Inl e)"
      "\<forall>f. Call_load f \<notin> set tr"
  | (load_error) sts e where
      "simplify eng ts = Inr sts"
      "tskit_load eng (prefix @ ''.trees'') = Inl e" "e \<noteq> FileNotFoundError"
      "summarise eng p prec prefix ipre t0 ts =
         ([Call_dump (ipre @ ''.trees''), Call_simplify, Call_load (prefix @ ''.trees'')], Inl e)"
  | (kc_error) sts truth where
      "simplify eng ts = Inr sts"
      "tskit_load eng (prefix @ ''.trees'') = Inr truth"
      "kc_distance eng sts truth = None"
      "summarise eng p prec prefix ipre t0 ts =
         ([Call_dump (ipre @ ''.trees''), Call_simplify, Call_load (prefix @ ''.trees''),
           Call_kc_distance], Inl LibraryError)"
  | (absent) sts m v where
      "simplify eng ts = Inr sts"
      "tskit_load eng (prefix @ ''.trees'') = Inl FileNotFoundError"
      "summarise eng p prec prefix ipre t0 ts =
         ([Call_dump (ipre @ ''.trees''), Call_simplify, Call_load (prefix @ ''.trees''),
           Call_getsize (ipre @ ''.trees'')],
          case getsize eng (ipre @ ''.trees'') of
            Inl e \<Rightarrow> Inl e
          | Inr sz \<Rightarrow>
              Inr \<lparr>ma_mut = ma_mut_rate p, ms_mut = ms_mut_rate p, res_precision = prec,
                   edges = num_edges_of eng ts, muts = num_mutations_of eng ts,
                   num_trees = num_trees_of eng ts, kc = None,
                   mean_node_children = m, var_node_children = v,
                   process_time = clock_reading eng 1 - t0, ts_size = sz,
                   ts_path = ipre @ ''.trees''\<rparr>)"
  | (present) sts truth d m v where
      "simplify eng ts = Inr sts"
      "tskit_load eng (prefix @ ''.trees'') = Inr truth"
      "kc_distance eng sts truth = Some d"
      "summarise eng p prec prefix ipre t0 ts =
         ([Call_dump (ipre @ ''.trees''), Call_simplify, Call_load (prefix @ ''.trees''),
           Call_kc_distance, Call_getsize (ipre @ ''.trees'')],
          case getsize eng (ipre @ ''.trees'') of
            Inl e \<Rightarrow> Inl e
          | Inr sz \<Rightarrow>
              Inr \<lparr>ma_mut = ma_mut_rate p, ms_mut = ms_mut_rate p, res_precision = prec,
                   edges = num_edges_of eng ts, muts = num_mutations_of eng ts,
                   num_trees = num_trees_of eng ts, kc = Some d,
                   mean_node_children = m, var_node_children = v,
                   process_time = clock_reading eng 1 - t0, ts_size = sz,
                   ts_path = ipre @ ''.trees''\<rparr>)"
proof (cases "dump eng ts (ipre @ ''.trees'')")
  case (Inl e)
  show ?thesis
    by (rule before_load[of "[Call_dump (ipre @ ''.trees'')]" e])
       (simp_all add: summarise_def Let_def Inl then_t_simps)
next
  case d: (Inr u)
  show ?thesis
  proof (cases "simplify eng ts")
    case (Inl e)
    show ?thesis
      by (rule before_load[of "[Call_dump (ipre @ ''.trees''), Call_simplify]" e])
         (simp_all add: summarise_def Let_def d Inl then_t_simps)
  next
    case s: (Inr sts)
    show ?thesis
    proof (cases "node_children_stats (trees eng sts)")
      case (Inl e)
      show ?thesis
        by (rule before_load[of "[Call_dump (ipre @ ''.trees''), Call_simplify]" e])
           (simp_all add: summarise_def Let_def d s Inl then_t_simps)
    next
      case st: (Inr mv)
      obtain m v where mv: "mv = (m, v)" by (cases mv)
      note st' = st[unfolded mv]
      show ?thesis
      proof (cases "tskit_load eng (prefix @ ''.trees'')")
        case l: (Inl e)
        show ?thesis
        proof (cases "e = FileNotFoundError")
          case True
          note l' = l[unfolded True]
          have lk: "load_and_kc eng sts (prefix @ ''.trees'') =
              ([Call_load (prefix @ ''.trees'')], Inr None)"
            by (simp add: load_and_kc_def l')
          show ?thesis
            by (rule absent[OF s l', of m v])
               (simp add: summarise_def Let_def d s st' then_t_simps lk,
                simp add: then_t_def call_def split: sum.splits)
        next
          case False
          have lk: "load_and_kc eng sts (prefix @ ''.trees'') =
              ([Call_load (prefix @ ''.trees'')], Inl e)"
            by (simp add: load_and_kc_def l False)
          show ?thesis
            by (rule load_error[OF s l False])
               (simp add: summarise_def Let_def d s st' then_t_simps lk,
                simp add: then_t_def)
        qed
      next
        case l: (Inr truth)
        show ?thesis
        proof (cases "kc_distance eng sts truth")
          case None
          have lk: "load_and_kc eng sts (prefix @ ''.trees'') =
              ([Call_load (prefix @ ''.trees''), Call_kc_distance], Inl LibraryError)"
            by (simp add: load_and_kc_def l None)
          show ?thesis
            by (rule kc_error[OF s l None])
               (simp add: summarise_def Let_def d s st' then_t_simps lk,
                simp add: then_t_def)
        next
          case (Some dist)
          have lk: "load_and_kc eng sts (prefix @ ''.trees'') =
              ([Call_load (prefix @ ''.trees''), Call_kc_distance], Inr (Some dist))"
            by (simp add: load_and_kc_def l Some)
          show ?thesis
            by (rule present[OF s l Some, of m v])
               (simp add: summarise_def Let_def d s st' then_t_simps lk,
                simp add: then_t_def call_def split: sum.splits)
        qed
      qed
    qed
  qed
qed

lemma run_success_kc:
  assumes r: "snd (run eng p) = Inr r"
  shows "\<exists>pth anc a1 ats a2 ts sts.
          path (sample_data p) = Some pth \<and>
          ts_path r = take (length pth - length ''.samples'') pth @ ''_ma'' @
             str_float eng (ma_mut_rate p) @ ''_ms'' @ str_float eng (ms_mut_rate p) @
             ''_p'' @ str_int (res_precision r) @ ''.trees'' \<and>
          Call_load (take (length pth - length ''.samples'') pth @ ''.trees'')
            \<in> set (fst (run eng p)) \<and>
          Call_match_ancestors a1 \<in> set (fst (run eng p)) \<and>
          Call_match_samples a2 \<in> set (fst (run eng p)) \<and>
          match_ancestors eng (sample_data p) anc a1 = Inr ats \<and>
          match_samples eng (sample_data p) ats a2 = Inr ts \<and>
          simplify eng ts = Inr sts \<and>
          (tskit_load eng (take (length pth - length ''.samples'') pth @ ''.trees'') =
             Inl FileNotFoundError \<longrightarrow> kc r = None) \<and>
          (\<forall>truth.
             tskit_load eng (take (length pth - length ''.samples'') pth @ ''.trees'') =
               Inr truth \<longrightarrow>
             kc r = kc_distance eng sts truth \<and> kc r \<noteq> None)"
proof (cases rule: run_outcomes[of eng p])
  case (early e)
  then show ?thesis using r by simp
next
  case (ga_fail base prec ipre e)
  then show ?thesis using r by simp
next
  case (ma_fail base prec ipre anc e)
  then show ?thesis using r by simp
next
  case (dump_fail base prec ipre anc ats e)
  then show ?thesis using r by simp
next
  case (ms_fail base prec ipre anc ats e)
  then show ?thesis using r by simp
next
  case (ms_ok base prec prefix ipre anc ats ts)
  obtain pth where pth: "path (sample_data p) = Some pth"
      "prefix = take (length pth - length ''.samples'') pth"
      "ipre = prefix @ ''_ma'' @ str_float eng (ma_mut_rate p) @ ''_ms'' @
               str_float eng (ms_mut_rate p) @ ''_p'' @ str_int prec"
    using name_prefixes_Some[OF ms_ok(2)] by blast
  have stages: "Call_match_ancestors (matching_args p prec (fl_mul (arith eng) base (ma_mut_rate p)))
        \<in> set (fst (run eng p))"
      "Call_match_samples (matching_args p prec (fl_mul (arith eng) base (ms_mut_rate p)))
        \<in> set (fst (run eng p))"
    unfolding ms_ok(7) by simp_all
  show ?thesis
  proof (cases rule: summarise_cases[of eng p prec prefix ipre "clock_reading eng 0" ts])
    case (before_load e tr)
    then show ?thesis using r unfolding ms_ok(7) by simp
  next
    case (load_error sts e)
    then show ?thesis using r unfolding ms_ok(7) by simp
  next
    case (kc_error sts truth)
    then show ?thesis using r unfolding ms_ok(7) by simp
  next
    case (absent sts m v)
    obtain sz where sz: "getsize eng (ipre @ ''.trees'') = Inr sz"
      using r unfolding ms_ok(7) absent(3) by (cases "getsize eng (ipre @ ''.trees'')") simp_all
    have rv: "kc r = None" "ts_path r = ipre @ ''.trees''" "res_precision r = prec"
      using r unfolding ms_ok(7) absent(3) sz by auto
    have ld: "Call_load (prefix @ ''.trees'') \<in> set (fst (run eng p))"
      unfolding ms_ok(7) absent(3) by simp
    show ?thesis
      apply (rule exI[of _ pth], rule exI[of _ anc])
      apply (rule exI[of _ "matching_args p prec (fl_mul (arith eng) base (ma_mut_rate p))"], rule exI[of _ ats])
      apply (rule exI[of _ "matching_args p prec (fl_mul (arith eng) base (ms_mut_rate p))"], rule exI[of _ ts])
      apply (rule exI[of _ sts])
      using pth ms_ok(4,6) absent(1,2) rv ld stages
      apply simp
      done
  next
    case (present sts truth d m v)
    obtain sz where sz: "getsize eng (ipre @ ''.trees'') = Inr sz"
      using r unfolding ms_ok(7) present(4) by (cases "getsize eng (ipre @ ''.trees'')") simp_all
    have rv: "kc r = Some d" "ts_path r = ipre @ ''.trees''" "res_precision r = prec"
      using r unfolding ms_ok(7) present(4) sz by auto
    have ld: "Call_load (prefix @ ''.trees'') \<in> set (fst (run eng p))"
      unfolding ms_ok(7) present(4) by simp
    show ?thesis
      apply (rule exI[of _ pth], rule exI[of _ anc])
      apply (rule exI[of _ "matching_args p prec (fl_mul (arith eng) base (ma_mut_rate p))"], rule exI[of _ ats])
      apply (rule exI[of _ "matching_args p prec (fl_mul (arith eng) base (ms_mut_rate p))"], rule exI[of _ ts])
      apply (rule exI[of _ sts])
      using pth ms_ok(4,6) present(1,2,3) rv ld stages
      apply simp
      done
  qed
qed

lemma run_truth_absent:
  assumes "Call_load f \<in> set (fst (run eng p))" "tskit_load eng f = Inl FileNotFoundError"
  shows "\<exists>out. last (fst (run eng p)) = Call_getsize out \<and>
         (\<forall>sz. getsize eng out = Inr sz \<longrightarrow>
            (\<exists>r. snd (run eng p) = Inr r \<and> kc r = None))"
proof (cases rule: run_outcomes[of eng p])
  case (early e)
  then show ?thesis using assms by simp
next
  case (ga_fail base prec ipre e)
  then show ?thesis using assms by simp
next
  case (ma_fail base prec ipre anc e)
  then show ?thesis using assms by simp
next
  case (dump_fail base prec ipre anc ats e)
  then show ?thesis using assms by simp
next
  case (ms_fail base prec ipre anc ats e)
  then show ?thesis using assms by simp
next
  case (ms_ok base prec prefix ipre anc ats ts)
  show ?thesis
  proof (cases rule: summarise_cases[of eng p prec prefix ipre "clock_reading eng 0" ts])
    case (before_load e tr)
    then show ?thesis using assms unfolding ms_ok(7) by simp
  next
    case (load_error sts e)
    then show ?thesis using assms unfolding ms_ok(7) by auto
  next
    case (kc_error sts truth)
    then show ?thesis using assms unfolding ms_ok(7) by auto
  next
    case (absent sts m v)
    show ?thesis unfolding ms_ok(7) absent(3) by auto
  next
    case (present sts truth d m v)
    then show ?thesis using assms unfolding ms_ok(7) by auto
  qed
qed

lemma run_load_error:
  assumes "Call_load f \<in> set (fst (run eng p))" "tskit_load eng f = Inl e"
    "e \<noteq> FileNotFoundError"
  shows "snd (run eng p) = Inl e"
proof (cases rule: run_outcomes[of eng p])
  case (early e)
  then show ?thesis using assms by simp
next
  case (ga_fail base prec ipre e)
  then show ?thesis using assms by simp
next
  case (ma_fail base prec ipre anc e)
  then show ?thesis using assms by simp
next
  case (dump_fail base prec ipre anc ats e)
  then show ?thesis using assms by simp
next
  case (ms_fail base prec ipre anc ats e)
  then show ?thesis using assms by simp
next
  case (ms_ok base prec prefix ipre anc ats ts)
  show ?thesis
  proof (cases rule: summarise_cases[of eng p prec prefix ipre "clock_reading eng 0" ts])
    case (before_load e tr)
    then show ?thesis using assms unfolding ms_ok(7) by simp
  next
    case (load_error sts e)
    then show ?thesis using assms unfolding ms_ok(7) by auto
  next
    case (kc_error sts truth)
    then show ?thesis using assms unfolding ms_ok(7) by auto
  next
    case (absent sts m v)
    then show ?thesis using assms unfolding ms_ok(7) by auto
  next
    case (present sts truth d m v)
    then show ?thesis using assms unfolding ms_ok(7) by auto
  qed
qed

lemma run_path_facts:
  "(path (sample_data p) = None \<longrightarrow>
      fst (run eng p) = [] \<and> (\<exists>e. snd (run eng p) = Inl e) \<and>
      (\<forall>x. select_precision_fl (arith eng) (rec_rate p) (ma_mut_rate p) (ms_mut_rate p)
             (precision p) = Inr x
          \<longrightarrow> snd (run eng p) = Inl UnboundLocalError) \<and>
      (\<forall>e. select_precision_fl (arith eng) (rec_rate p) (ma_mut_rate p) (ms_mut_rate p)
             (precision p) = Inl e
          \<longrightarrow> snd (run eng p) = Inl e)) \<and>
   (\<forall>r. snd (run eng p) = Inr r \<longrightarrow>
      (\<exists>pth. path (sample_data p) = Some pth \<and> endswith pth ''.samples''))"
proof (intro conjI impI allI)
  fix e
  assume "select_precision_fl (arith eng) (rec_rate p) (ma_mut_rate p) (ms_mut_rate p) (precision p) = Inl e"
  then show "snd (run eng p) = Inl e" by (simp add: run_def)
next
  assume none: "path (sample_data p) = None"
  have np: "name_prefixes (str_float eng) p prec = Inr None" for prec
    using none by (simp add: name_prefixes_def)
  show "fst (run eng p) = []"
    by (simp add: run_def np split: sum.splits prod.splits)
  show "\<exists>e. snd (run eng p) = Inl e"
    by (simp add: run_def np split: sum.splits prod.splits)
  fix x
  assume "select_precision_fl (arith eng) (rec_rate p) (ma_mut_rate p) (ms_mut_rate p) (precision p) = Inr x"
  then show "snd (run eng p) = Inl UnboundLocalError"
    by (cases x) (simp add: run_def np)
next
  fix r
  assume r: "snd (run eng p) = Inr r"
  show "\<exists>pth. path (sample_data p) = Some pth \<and> endswith pth ''.samples''"
  proof (cases rule: run_shape[of eng p])
    case (early e)
    then show ?thesis using r by simp
  next
    case (staged base prec prefix ipre)
    then show ?thesis using name_prefixes_Some[OF staged(2)] by blast
  qed
qed

subsection \<open>A run on the substitute engine\<close>

lemma example_precision:
  "select_precision_fl exact_ops [0, 1 / 100] (1 / 10) (1 / 100) (Some 6) = Inr (1 / 100, 6)"
  by (simp add: select_precision_fl_def np_quantile_fl_def exact_ops_def)

lemma example_stats: "node_children_stats (trees (stub_engine b) ()) = Inr (2, 0)"
  by (simp add: stub_engine_def node_children_stats_def node_children_sums_def count_node_def)

lemma example_names:
  "name_prefixes (str_float (stub_engine b)) example_params 6 =
     Inr (Some (''a'', ''a_max_msx_p6''))"
  by (simp add: name_prefixes_def example_params_def endswith_def stub_engine_def
        str_int_def str_nat.simps)

lemma stub_engine_calls:
  "generate_ancestors (stub_engine b) sd n pth = Inr ()"
  "match_ancestors (stub_engine b) sd anc a = Inr ()"
  "match_samples (stub_engine b) sd ats a = Inr ()"
  "dump (stub_engine b) ts f = Inr ()"
  "simplify (stub_engine b) ts = Inr ()"
  "tskit_load (stub_engine b) f = (if b then Inr () else Inl FileNotFoundError)"
  "kc_distance (stub_engine b) ts truth = Some 0"
  "getsize (stub_engine b) f = Inr 1024"
  "clock_reading (stub_engine b) k = real k"
  "num_edges_of (stub_engine b) ts = 2"
  "num_mutations_of (stub_engine b) ts = 0"
  "num_trees_of (stub_engine b) ts = 1"
  "arith (stub_engine b) = exact_ops"
  by (simp_all add: stub_engine_def)

lemma run_example_absent:
  "run (stub_engine False) example_params =
     ([Call_generate_ancestors 0 (Some ''a_max_msx_p6.ancestors''),
       Call_match_ancestors \<lparr>arg_num_threads = 0, arg_precision = 6,
          arg_recombination_rate = [0, 1 / 100], arg_mutation_rate = 1 / 1000\<rparr>,
       Call_dump ''a_max_msx_p6.atrees'',
       Call_match_samples \<lparr>arg_num_threads = 0, arg_precision = 6,
          arg_recombination_rate = [0, 1 / 100], arg_mutation_rate = 1 / 10000\<rparr>,
       Call_dump ''a_max_msx_p6.trees'',
       Call_simplify,
       Call_load ''a.trees'',
       Call_getsize ''a_max_msx_p6.trees''],
      Inr \<lparr>ma_mut = 1 / 10, ms_mut = 1 / 100, res_precision = 6, edges = 2, muts = 0,
           num_trees = 1, kc = None, mean_node_children = 2, var_node_children = 0,
           process_time = 1, ts_size = 1024, ts_path = ''a_max_msx_p6.trees''\<rparr>)"
proof -
  have sel: "select_precision_fl exact_ops (rec_rate example_params)
      (ma_mut_rate example_params) (ms_mut_rate example_params) (precision example_params) =
      Inr (1 / 100, 6)"
    using example_precision by (simp add: example_params_def)
  show ?thesis
    unfolding run_def stub_engine_calls sel
    by (simp add: example_names Let_def summarise_def load_and_kc_def example_stats
          matching_args_def stub_engine_calls then_t_def call_def fl_mul_exact)
       (simp add: example_params_def)
qed

lemma run_example_present:
  "run (stub_engine True) example_params =
     ([Call_generate_ancestors 0 (Some ''a_max_msx_p6.ancestors''),
       Call_match_ancestors \<lparr>arg_num_threads = 0, arg_precision = 6,
          arg_recombination_rate = [0, 1 / 100], arg_mutation_rate = 1 / 1000\<rparr>,
       Call_dump ''a_max_msx_p6.atrees'',
       Call_match_samples \<lparr>arg_num_threads = 0, arg_precision = 6,
          arg_recombination_rate = [0, 1 / 100], arg_mutation_rate = 1 / 10000\<rparr>,
       Call_dump ''a_max_msx_p6.trees'',
       Call_simplify,
       Call_load ''a.trees'',
       Call_kc_distance,
       Call_getsize ''a_max_msx_p6.trees''],
      Inr \<lparr>ma_mut = 1 / 10, ms_mut = 1 / 100, res_precision = 6, edges = 2, muts = 0,
           num_trees = 1, kc = Some 0, mean_node_children = 2, var_node_children = 0,
           process_time = 1, ts_size = 1024, ts_path = ''a_max_msx_p6.trees''\<rparr>)"
proof -
  have sel: "select_precision_fl exact_ops (rec_rate example_params)
      (ma_mut_rate example_params) (ms_mut_rate example_params) (precision example_params) =
      Inr (1 / 100, 6)"
    using example_precision by (simp add: example_params_def)
  show ?thesis
    unfolding run_def stub_engine_calls sel
    by (simp add: example_names Let_def summarise_def load_and_kc_def example_stats
          matching_args_def stub_engine_calls then_t_def call_def fl_mul_exact)
       (simp add: example_params_def)
qed

lemma run_example_unreadable:
  "run ((stub_engine True)\<lparr>tskit_load := (\<lambda>_. Inl (OtherError ''unreadable''))\<rparr>)
     example_params =
     ([Call_generate_ancestors 0 (Some ''a_max_msx_p6.ancestors''),
       Call_match_ancestors \<lparr>arg_num_threads = 0, arg_precision = 6,
          arg_recombination_rate = [0, 1 / 100], arg_mutation_rate = 1 / 1000\<rparr>,
       Call_dump ''a_max_msx_p6.atrees'',
       Call_match_samples \<lparr>arg_num_threads = 0, arg_precision = 6,
          arg_recombination_rate = [0, 1 / 100], arg_mutation_rate = 1 / 10000\<rparr>,
       Call_dump ''a_max_msx_p6.trees'',
       Call_simplify,
       Call_load ''a.trees''],
      Inl (OtherError ''unreadable''))"
proof -
  have sel: "select_precision_fl exact_ops (rec_rate example_params)
      (ma_mut_rate example_params) (ms_mut_rate example_params) (precision example_params) =
      Inr (1 / 100, 6)"
    using example_precision by (simp add: example_params_def)
  show ?thesis
    unfolding run_def
    by (simp add: stub_engine_calls sel example_names Let_def summarise_def load_and_kc_def
          example_stats matching_args_def then_t_def call_def fl_mul_exact)
       (simp add: example_params_def)
qed

lemma example_precision_selected:
  "select_precision_fl exact_ops [0, 1 / 100] (1 / 10) (1 / 100) None = Inr (1 / 100, 7)"
proof -
  have a: "log 10 (1 / 100) = - 2" using log10_inverse_power[of 2] by simp
  have b: "log 10 (1 / 10000) = - 4" using log10_inverse_power[of 4] by simp
  have c: "median [1 / 100] = 1 / 100" by (simp add: median_def)
  show ?thesis using select_precision_value[of "[0, 1 / 100]" "1 / 10" "1 / 100"]
    by (simp add: a b c select_precision_fl_exact)
qed

lemma example_names_selected:
  "name_prefixes (str_float (stub_engine b)) (example_params\<lparr>precision := None\<rparr>) 7 =
     Inr (Some (''a'', ''a_max_msx_p7''))"
  by (simp add: name_prefixes_def example_params_def endswith_def stub_engine_def
        str_int_def str_nat.simps)

subsection \<open>When the stages are called\<close>

lemma fst_then_t_call:
  "fst (then_t (call ev r) k) = ev # (case r of Inl e \<Rightarrow> [] | Inr a \<Rightarrow> fst (k a))"
  by (cases r) (simp_all add: then_t_simps)

lemma run_reaches_match_ancestors:
  assumes "select_precision_fl (arith eng) (rec_rate p) (ma_mut_rate p) (ms_mut_rate p) (precision p) =
      Inr (base, prec)"
    and "name_prefixes (str_float eng) p prec = Inr (Some (prefix, ipre))"
    and "generate_ancestors eng (sample_data p) (num_threads p) (Some (ipre @ ''.ancestors'')) =
      Inr anc"
  shows "\<exists>rest. fst (run eng p) =
      Call_generate_ancestors (num_threads p) (Some (ipre @ ''.ancestors'')) #
      Call_match_ancestors (matching_args p prec (fl_mul (arith eng) base (ma_mut_rate p))) # rest"
  by (simp add: run_def assms Let_def then_t_call_Inr fst_then_t_call)

lemma run_reaches_match_samples:
  assumes "select_precision_fl (arith eng) (rec_rate p) (ma_mut_rate p) (ms_mut_rate p) (precision p) =
      Inr (base, prec)"
    and "name_prefixes (str_float eng) p prec = Inr (Some (prefix, ipre))"
    and "generate_ancestors eng (sample_data p) (num_threads p) (Some (ipre @ ''.ancestors'')) =
      Inr anc"
    and "match_ancestors eng (sample_data p) anc (matching_args p prec (fl_mul (arith eng) base (ma_mut_rate p))) =
      Inr ats"
    and "dump eng ats (ipre @ ''.atrees'') = Inr ()"
  shows "\<exists>rest. fst (run eng p) =
      Call_generate_ancestors (num_threads p) (Some (ipre @ ''.ancestors'')) #
      Call_match_ancestors (matching_args p prec (fl_mul (arith eng) base (ma_mut_rate p))) #
      Call_dump (ipre @ ''.atrees'') #
      Call_match_samples (matching_args p prec (fl_mul (arith eng) base (ms_mut_rate p))) # rest"
  by (simp add: run_def assms Let_def then_t_call_Inr fst_then_t_call)

lemma run_invokes_matching:
  assumes sel: "select_precision_fl (arith eng) (rec_rate p) (ma_mut_rate p) (ms_mut_rate p)
           (precision p) = Inr (base, prec)"
    and nam: "name_prefixes (str_float eng) p prec = Inr (Some (prefix, ipre))"
    and ga: "generate_ancestors eng (sample_data p) (num_threads p)
      (Some (ipre @ ''.ancestors'')) = Inr anc"
  shows "np_quantile_fl (arith eng) (tl (rec_rate p)) (1 / 2) = Inr base \<and>
      (\<exists>rest. fst (run eng p) =
         Call_generate_ancestors (num_threads p) (Some (ipre @ ''.ancestors'')) #
         Call_match_ancestors
           \<lparr>arg_num_threads = num_threads p, arg_precision = prec,
            arg_recombination_rate = rec_rate p,
            arg_mutation_rate = fl_mul (arith eng) base (ma_mut_rate p)\<rparr> # rest) \<and>
      (\<forall>ats.
         match_ancestors eng (sample_data p) anc
           \<lparr>arg_num_threads = num_threads p, arg_precision = prec,
            arg_recombination_rate = rec_rate p,
            arg_mutation_rate = fl_mul (arith eng) base (ma_mut_rate p)\<rparr> = Inr ats \<and>
         dump eng ats (ipre @ ''.atrees'') = Inr () \<longrightarrow>
         (\<exists>rest. fst (run eng p) =
            Call_generate_ancestors (num_threads p) (Some (ipre @ ''.ancestors'')) #
            Call_match_ancestors
              \<lparr>arg_num_threads = num_threads p, arg_precision = prec,
               arg_recombination_rate = rec_rate p,
               arg_mutation_rate = fl_mul (arith eng) base (ma_mut_rate p)\<rparr> #
            Call_dump (ipre @ ''.atrees'') #
            Call_match_samples
              \<lparr>arg_num_threads = num_threads p, arg_precision = prec,
               arg_recombination_rate = rec_rate p,
               arg_mutation_rate = fl_mul (arith eng) base (ms_mut_rate p)\<rparr> # rest))"
proof (intro conjI allI impI)
  show "np_quantile_fl (arith eng) (tl (rec_rate p)) (1 / 2) = Inr base"
    using select_precision_base[OF sel] by simp
next
  show "\<exists>rest. fst (run eng p) =
         Call_generate_ancestors (num_threads p) (Some (ipre @ ''.ancestors'')) #
         Call_match_ancestors
           \<lparr>arg_num_threads = num_threads p, arg_precision = prec,
            arg_recombination_rate = rec_rate p,
            arg_mutation_rate = fl_mul (arith eng) base (ma_mut_rate p)\<rparr> # rest"
    using run_reaches_match_ancestors[OF sel nam ga] by (simp add: matching_args_def)
next
  fix ats
  assume "match_ancestors eng (sample_data p) anc
           \<lparr>arg_num_threads = num_threads p, arg_precision = prec,
            arg_recombination_rate = rec_rate p,
            arg_mutation_rate = fl_mul (arith eng) base (ma_mut_rate p)\<rparr> = Inr ats \<and>
         dump eng ats (ipre @ ''.atrees'') = Inr ()"
  then have ma: "match_ancestors eng (sample_data p) anc
        (matching_args p prec (fl_mul (arith eng) base (ma_mut_rate p))) = Inr ats"
    and d: "dump eng ats (ipre @ ''.atrees'') = Inr ()"
    by (simp_all add: matching_args_def)
  show "\<exists>rest. fst (run eng p) =
            Call_generate_ancestors (num_threads p) (Some (ipre @ ''.ancestors'')) #
            Call_match_ancestors
              \<lparr>arg_num_threads = num_threads p, arg_precision = prec,
               arg_recombination_rate = rec_rate p,
               arg_mutation_rate = fl_mul (arith eng) base (ma_mut_rate p)\<rparr> #
            Call_dump (ipre @ ''.atrees'') #
            Call_match_samples
              \<lparr>arg_num_threads = num_threads p, arg_precision = prec,
               arg_recombination_rate = rec_rate p,
               arg_mutation_rate = fl_mul (arith eng) base (ms_mut_rate p)\<rparr> # rest"
    using run_reaches_match_samples[OF sel nam ga ma d] by (simp add: matching_args_def)
qed

lemma matching_args_selected:
  assumes sel: "select_precision_fl (arith eng) (rec_rate p) (ma_mut_rate p) (ms_mut_rate p)
           (precision p) = Inr (base, prec)"
  shows "\<exists>base' prec'.
      select_precision_fl (arith eng) (rec_rate p) (ma_mut_rate p) (ms_mut_rate p)
        (precision p) = Inr (base', prec') \<and>
      np_quantile_fl (arith eng) (tl (rec_rate p)) (1 / 2) = Inr base' \<and>
      ((\<forall>x y g. fl_lerp (arith eng) x y g = x + (y - x) * g) \<longrightarrow>
         base' = median (tl (rec_rate p))) \<and>
      (\<forall>q. precision p = Some q \<longrightarrow> prec' = q) \<and>
      arg_recombination_rate (matching_args p prec (fl_mul (arith eng) base m)) = rec_rate p \<and>
      arg_mutation_rate (matching_args p prec (fl_mul (arith eng) base m)) =
        fl_mul (arith eng) base' m \<and>
      (arith eng = exact_ops \<longrightarrow>
         arg_mutation_rate (matching_args p prec (fl_mul (arith eng) base m)) =
           median (tl (rec_rate p)) * m) \<and>
      arg_precision (matching_args p prec (fl_mul (arith eng) base m)) = prec' \<and>
      arg_num_threads (matching_args p prec (fl_mul (arith eng) base m)) = num_threads p"
proof -
  have q: "np_quantile_fl (arith eng) (tl (rec_rate p)) (1 / 2) = Inr base"
    and ov: "\<forall>q. precision p = Some q \<longrightarrow> prec = q"
    using select_precision_base[OF sel] by simp_all
  have med: "base = median (tl (rec_rate p))"
    if "\<forall>x y g. fl_lerp (arith eng) x y g = x + (y - x) * g"
    using q that by (rule np_quantile_fl_median)
  have ex: "fl_mul (arith eng) base m = median (tl (rec_rate p)) * m"
    if e: "arith eng = exact_ops"
  proof -
    have "\<forall>x y g. fl_lerp (arith eng) x y g = x + (y - x) * g"
      by (simp add: e exact_ops_def)
    then have "base = median (tl (rec_rate p))" by (rule med)
    then show ?thesis by (simp add: e fl_mul_exact)
  qed
  show ?thesis
    apply (rule exI[of _ base], rule exI[of _ prec])
    using sel q ov med ex by (simp add: matching_args_def)
qed

subsection \<open>The claims about the pipeline\<close>

text \<open>
  Claim C3. In every run, ancestor matching is called only after the ancestor builder has
  returned without raising, and sample matching only after ancestor matching (and the
  writing of its result) has; a stage that raises ends the run with that exception, and
  no later call is made.
\<close>

theorem run_stage_order:
  "(\<forall>a. Call_match_ancestors a \<in> set (fst (run eng p)) \<longrightarrow>
      (\<exists>th pth anc rest.
          fst (run eng p) = Call_generate_ancestors th pth # Call_match_ancestors a # rest \<and>
          generate_ancestors eng (sample_data p) th pth = Inr anc)) \<and>
   (\<forall>a. Call_match_samples a \<in> set (fst (run eng p)) \<longrightarrow>
      (\<exists>th pth anc a' ats f rest.
          fst (run eng p) =
            Call_generate_ancestors th pth # Call_match_ancestors a' # Call_dump f #
            Call_match_samples a # rest \<and>
          generate_ancestors eng (sample_data p) th pth = Inr anc \<and>
          match_ancestors eng (sample_data p) anc a' = Inr ats \<and>
          dump eng ats f = Inr ())) \<and>
   (\<forall>th pth e.
      Call_generate_ancestors th pth \<in> set (fst (run eng p)) \<and>
      generate_ancestors eng (sample_data p) th pth = Inl e \<longrightarrow>
      run eng p = ([Call_generate_ancestors th pth], Inl e)) \<and>
   (\<forall>th pth anc a e.
      Call_generate_ancestors th pth \<in> set (fst (run eng p)) \<and>
      generate_ancestors eng (sample_data p) th pth = Inr anc \<and>
      Call_match_ancestors a \<in> set (fst (run eng p)) \<and>
      match_ancestors eng (sample_data p) anc a = Inl e \<longrightarrow>
      run eng p = ([Call_generate_ancestors th pth, Call_match_ancestors a], Inl e)) \<and>
   (\<forall>th pth anc a' ats a e.
      Call_generate_ancestors th pth \<in> set (fst (run eng p)) \<and>
      generate_ancestors eng (sample_data p) th pth = Inr anc \<and>
      Call_match_ancestors a' \<in> set (fst (run eng p)) \<and>
      match_ancestors eng (sample_data p) anc a' = Inr ats \<and>
      Call_match_samples a \<in> set (fst (run eng p)) \<and>
      match_samples eng (sample_data p) ats a = Inl e \<longrightarrow>
      (\<exists>f. run eng p =
         ([Call_generate_ancestors th pth, Call_match_ancestors a', Call_dump f,
           Call_match_samples a], Inl e)))"
proof (cases rule: run_outcomes[of eng p])
  case (early e)
  then show ?thesis by simp
next
  case (ga_fail base prec ipre e)
  show ?thesis unfolding ga_fail(3) using ga_fail(2) by simp
next
  case (ma_fail base prec ipre anc e)
  show ?thesis unfolding ma_fail(4) using ma_fail(2,3) by simp
next
  case (dump_fail base prec ipre anc ats e)
  show ?thesis unfolding dump_fail(4) using dump_fail(2,3) by simp
next
  case (ms_fail base prec ipre anc ats e)
  show ?thesis unfolding ms_fail(6) using ms_fail(2-5) by simp
next
  case (ms_ok base prec prefix ipre anc ats ts)
  show ?thesis unfolding ms_ok(7) using ms_ok(3-6)
    by (simp add: summarise_no_stage)
qed

theorem run_stage_order_witness:
  "Call_match_samples (matching_args example_params 6 (1 / 10000))
     \<in> set (fst (run (stub_engine False) example_params)) \<and>
   (\<exists>th pth anc a' ats f rest.
      fst (run (stub_engine False) example_params) =
        Call_generate_ancestors th pth # Call_match_ancestors a' # Call_dump f #
        Call_match_samples (matching_args example_params 6 (1 / 10000)) # rest \<and>
      generate_ancestors (stub_engine False) (sample_data example_params) th pth = Inr anc \<and>
      match_ancestors (stub_engine False) (sample_data example_params) anc a' = Inr ats \<and>
      dump (stub_engine False) ats f = Inr ())"
proof -
  have mem: "Call_match_samples (matching_args example_params 6 (1 / 10000))
     \<in> set (fst (run (stub_engine False) example_params))"
    unfolding run_example_absent by (simp add: matching_args_def example_params_def)
  from run_stage_order[of "stub_engine False" example_params] mem show ?thesis by blast
qed

lemma run_match_event_arguments:
  "(\<forall>a. Call_match_ancestors a \<in> set (fst (run eng p)) \<longrightarrow>
      (\<exists>base prec.
          select_precision_fl (arith eng) (rec_rate p) (ma_mut_rate p) (ms_mut_rate p)
           (precision p) = Inr (base, prec) \<and>
          np_quantile_fl (arith eng) (tl (rec_rate p)) (1 / 2) = Inr base \<and>
          ((\<forall>x y g. fl_lerp (arith eng) x y g = x + (y - x) * g) \<longrightarrow>
             base = median (tl (rec_rate p))) \<and>
          (\<forall>q. precision p = Some q \<longrightarrow> prec = q) \<and>
          arg_recombination_rate a = rec_rate p \<and>
          arg_mutation_rate a = fl_mul (arith eng) base (ma_mut_rate p) \<and>
          (arith eng = exact_ops \<longrightarrow>
             arg_mutation_rate a = median (tl (rec_rate p)) * ma_mut_rate p) \<and>
          arg_precision a = prec \<and>
          arg_num_threads a = num_threads p)) \<and>
   (\<forall>a. Call_match_samples a \<in> set (fst (run eng p)) \<longrightarrow>
      (\<exists>base prec.
          select_precision_fl (arith eng) (rec_rate p) (ma_mut_rate p) (ms_mut_rate p)
           (precision p) = Inr (base, prec) \<and>
          np_quantile_fl (arith eng) (tl (rec_rate p)) (1 / 2) = Inr base \<and>
          ((\<forall>x y g. fl_lerp (arith eng) x y g = x + (y - x) * g) \<longrightarrow>
             base = median (tl (rec_rate p))) \<and>
          (\<forall>q. precision p = Some q \<longrightarrow> prec = q) \<and>
          arg_recombination_rate a = rec_rate p \<and>
          arg_mutation_rate a = fl_mul (arith eng) base (ms_mut_rate p) \<and>
          (arith eng = exact_ops \<longrightarrow>
             arg_mutation_rate a = median (tl (rec_rate p)) * ms_mut_rate p) \<and>
          arg_precision a = prec \<and>
          arg_num_threads a = num_threads p))"
proof (cases rule: run_outcomes[of eng p])
  case (early e)
  then show ?thesis by simp
next
  case (ga_fail base prec ipre e)
  show ?thesis unfolding ga_fail(3) by simp
next
  case (ma_fail base prec ipre anc e)
  show ?thesis unfolding ma_fail(4)
    using matching_args_selected[OF ma_fail(1)] by simp
next
  case (dump_fail base prec ipre anc ats e)
  show ?thesis unfolding dump_fail(4)
    using matching_args_selected[OF dump_fail(1)] by simp
next
  case (ms_fail base prec ipre anc ats e)
  show ?thesis unfolding ms_fail(6)
    using matching_args_selected[OF ms_fail(1)] by simp
next
  case (ms_ok base prec prefix ipre anc ats ts)
  show ?thesis unfolding ms_ok(7)
    using matching_args_selected[OF ms_ok(1)] by (simp add: summarise_no_stage)
qed

text \<open>
  Claim C4. In every run in which the precision selection returns, the sample data has a
  path that ends in \<open>.samples\<close> and the ancestor builder returns, ancestor matching is
  called next, with the whole rate array as its recombination rate, the base probability
  (the 0.5 quantile of the rates without the sentinel, which is their median when the
  interpolation is exact) times \<open>ma_mut_rate\<close> as its mutation rate, the selected precision
  (the override when there is one) and the configured thread count. When ancestor matching
  returns and its result is written, sample matching is called next, with the same
  arguments but for the mutation rate, which is the base probability times \<open>ms_mut_rate\<close>.
  The products are float products; in exact arithmetic they are the median times the
  multiplier. No matching call with other arguments is made in any run.
\<close>

theorem run_match_arguments:
  "(\<forall>base prec prefix ipre anc.
      select_precision_fl (arith eng) (rec_rate p) (ma_mut_rate p) (ms_mut_rate p)
           (precision p) = Inr (base, prec) \<and>
      name_prefixes (str_float eng) p prec = Inr (Some (prefix, ipre)) \<and>
      generate_ancestors eng (sample_data p) (num_threads p) (Some (ipre @ ''.ancestors'')) =
        Inr anc \<longrightarrow>
      np_quantile_fl (arith eng) (tl (rec_rate p)) (1 / 2) = Inr base \<and>
      (\<exists>rest. fst (run eng p) =
         Call_generate_ancestors (num_threads p) (Some (ipre @ ''.ancestors'')) #
         Call_match_ancestors
           \<lparr>arg_num_threads = num_threads p, arg_precision = prec,
            arg_recombination_rate = rec_rate p,
            arg_mutation_rate = fl_mul (arith eng) base (ma_mut_rate p)\<rparr> # rest) \<and>
      (\<forall>ats.
         match_ancestors eng (sample_data p) anc
           \<lparr>arg_num_threads = num_threads p, arg_precision = prec,
            arg_recombination_rate = rec_rate p,
            arg_mutation_rate = fl_mul (arith eng) base (ma_mut_rate p)\<rparr> = Inr ats \<and>
         dump eng ats (ipre @ ''.atrees'') = Inr () \<longrightarrow>
         (\<exists>rest. fst (run eng p) =
            Call_generate_ancestors (num_threads p) (Some (ipre @ ''.ancestors'')) #
            Call_match_ancestors
              \<lparr>arg_num_threads = num_threads p, arg_precision = prec,
               arg_recombination_rate = rec_rate p,
               arg_mutation_rate = fl_mul (arith eng) base (ma_mut_rate p)\<rparr> #
            Call_dump (ipre @ ''.atrees'') #
            Call_match_samples
              \<lparr>arg_num_threads = num_threads p, arg_precision = prec,
               arg_recombination_rate = rec_rate p,
               arg_mutation_rate = fl_mul (arith eng) base (ms_mut_rate p)\<rparr> # rest))) \<and>
   (\<forall>a. Call_match_ancestors a \<in> set (fst (run eng p)) \<longrightarrow>
      (\<exists>base prec.
          select_precision_fl (arith eng) (rec_rate p) (ma_mut_rate p) (ms_mut_rate p)
           (precision p) = Inr (base, prec) \<and>
          np_quantile_fl (arith eng) (tl (rec_rate p)) (1 / 2) = Inr base \<and>
          ((\<forall>x y g. fl_lerp (arith eng) x y g = x + (y - x) * g) \<longrightarrow>
             base = median (tl (rec_rate p))) \<and>
          (\<forall>q. precision p = Some q \<longrightarrow> prec = q) \<and>
          arg_recombination_rate a = rec_rate p \<and>
          arg_mutation_rate a = fl_mul (arith eng) base (ma_mut_rate p) \<and>
          (arith eng = exact_ops \<longrightarrow>
             arg_mutation_rate a = median (tl (rec_rate p)) * ma_mut_rate p) \<and>
          arg_precision a = prec \<and>
          arg_num_threads a = num_threads p)) \<and>
   (\<forall>a. Call_match_samples a \<in> set (fst (run eng p)) \<longrightarrow>
      (\<exists>base prec.
          select_precision_fl (arith eng) (rec_rate p) (ma_mut_rate p) (ms_mut_rate p)
           (precision p) = Inr (base, prec) \<and>
          np_quantile_fl (arith eng) (tl (rec_rate p)) (1 / 2) = Inr base \<and>
          ((\<forall>x y g. fl_lerp (arith eng) x y g = x + (y - x) * g) \<longrightarrow>
             base = median (tl (rec_rate p))) \<and>
          (\<forall>q. precision p = Some q \<longrightarrow> prec = q) \<and>
          arg_recombination_rate a = rec_rate p \<and>
          arg_mutation_rate a = fl_mul (arith eng) base (ms_mut_rate p) \<and>
          (arith eng = exact_ops \<longrightarrow>
             arg_mutation_rate a = median (tl (rec_rate p)) * ms_mut_rate p) \<and>
          arg_precision a = prec \<and>
          arg_num_threads a = num_threads p))"
  apply (rule conjI)
   apply (intro allI impI)
   apply (elim conjE)
   apply (erule (2) run_invokes_matching)
  apply (rule run_match_event_arguments)
  done

text \<open>
  A run with no precision override: the precision 7 is selected, and both matching calls
  are made with it.
\<close>

theorem run_match_arguments_witness:
  "\<exists>rest. fst (run (stub_engine False) (example_params\<lparr>precision := None\<rparr>)) =
      Call_generate_ancestors 0 (Some ''a_max_msx_p7.ancestors'') #
      Call_match_ancestors
        \<lparr>arg_num_threads = 0, arg_precision = 7, arg_recombination_rate = [0, 1 / 100],
         arg_mutation_rate = 1 / 1000\<rparr> #
      Call_dump ''a_max_msx_p7.atrees'' #
      Call_match_samples
        \<lparr>arg_num_threads = 0, arg_precision = 7, arg_recombination_rate = [0, 1 / 100],
         arg_mutation_rate = 1 / 10000\<rparr> # rest"
proof -
  let ?p = "example_params\<lparr>precision := None\<rparr>"
  let ?eng = "stub_engine False"
  have sel: "select_precision_fl (arith ?eng) (rec_rate ?p) (ma_mut_rate ?p) (ms_mut_rate ?p)
      (precision ?p) = Inr (1 / 100, 7)"
    using example_precision_selected by (simp add: example_params_def stub_engine_calls)
  have nam: "name_prefixes (str_float ?eng) ?p 7 = Inr (Some (''a'', ''a_max_msx_p7''))"
    by (rule example_names_selected)
  have ga: "generate_ancestors ?eng (sample_data ?p) (num_threads ?p)
      (Some (''a_max_msx_p7'' @ ''.ancestors'')) = Inr ()"
    by (rule stub_engine_calls)
  from run_match_arguments[of ?eng ?p] sel nam ga
  have "\<forall>ats.
         match_ancestors ?eng (sample_data ?p) ()
           \<lparr>arg_num_threads = num_threads ?p, arg_precision = 7,
            arg_recombination_rate = rec_rate ?p,
            arg_mutation_rate = fl_mul (arith ?eng) (1 / 100) (ma_mut_rate ?p)\<rparr> = Inr ats \<and>
         dump ?eng ats (''a_max_msx_p7'' @ ''.atrees'') = Inr () \<longrightarrow>
         (\<exists>rest. fst (run ?eng ?p) =
            Call_generate_ancestors (num_threads ?p) (Some (''a_max_msx_p7'' @ ''.ancestors'')) #
            Call_match_ancestors
              \<lparr>arg_num_threads = num_threads ?p, arg_precision = 7,
               arg_recombination_rate = rec_rate ?p,
               arg_mutation_rate = fl_mul (arith ?eng) (1 / 100) (ma_mut_rate ?p)\<rparr> #
            Call_dump (''a_max_msx_p7'' @ ''.atrees'') #
            Call_match_samples
              \<lparr>arg_num_threads = num_threads ?p, arg_precision = 7,
               arg_recombination_rate = rec_rate ?p,
               arg_mutation_rate = fl_mul (arith ?eng) (1 / 100) (ms_mut_rate ?p)\<rparr> # rest)"
    by blast
  then have "\<exists>rest. fst (run ?eng ?p) =
            Call_generate_ancestors (num_threads ?p) (Some (''a_max_msx_p7'' @ ''.ancestors'')) #
            Call_match_ancestors
              \<lparr>arg_num_threads = num_threads ?p, arg_precision = 7,
               arg_recombination_rate = rec_rate ?p,
               arg_mutation_rate = fl_mul (arith ?eng) (1 / 100) (ma_mut_rate ?p)\<rparr> #
            Call_dump (''a_max_msx_p7'' @ ''.atrees'') #
            Call_match_samples
              \<lparr>arg_num_threads = num_threads ?p, arg_precision = 7,
               arg_recombination_rate = rec_rate ?p,
               arg_mutation_rate = fl_mul (arith ?eng) (1 / 100) (ms_mut_rate ?p)\<rparr> # rest"
    by (simp add: stub_engine_calls)
  then show ?thesis by (simp add: example_params_def stub_engine_calls fl_mul_exact)
qed

text \<open>
  Claim C9. In every run that succeeds, the ground truth is looked for at the path of the
  sample file with \<open>.samples\<close> replaced by \<open>.trees\<close>, which is the output path without
  the suffix of the parameters. When no file is there the field \<open>kc\<close> is \<open>None\<close>; when the
  file loads, \<open>kc\<close> is the distance between the simplified inferred tree sequence and the
  loaded one. A missing file does not end the run: the run goes on to its last call, and
  succeeds when that call does. Any other exception of the load ends the run.
\<close>

theorem run_kc_distance:
  "(\<forall>r. snd (run eng p) = Inr r \<longrightarrow>
      (\<exists>pth anc a1 ats a2 ts sts.
          path (sample_data p) = Some pth \<and>
          ts_path r = take (length pth - length ''.samples'') pth @ ''_ma'' @
             str_float eng (ma_mut_rate p) @ ''_ms'' @ str_float eng (ms_mut_rate p) @
             ''_p'' @ str_int (res_precision r) @ ''.trees'' \<and>
          Call_load (take (length pth - length ''.samples'') pth @ ''.trees'')
            \<in> set (fst (run eng p)) \<and>
          Call_match_ancestors a1 \<in> set (fst (run eng p)) \<and>
          Call_match_samples a2 \<in> set (fst (run eng p)) \<and>
          match_ancestors eng (sample_data p) anc a1 = Inr ats \<and>
          match_samples eng (sample_data p) ats a2 = Inr ts \<and>
          simplify eng ts = Inr sts \<and>
          (tskit_load eng (take (length pth - length ''.samples'') pth @ ''.trees'') =
             Inl FileNotFoundError \<longrightarrow> kc r = None) \<and>
          (\<forall>truth.
             tskit_load eng (take (length pth - length ''.samples'') pth @ ''.trees'') =
               Inr truth \<longrightarrow>
             kc r = kc_distance eng sts truth \<and> kc r \<noteq> None))) \<and>
   (\<forall>f. Call_load f \<in> set (fst (run eng p)) \<and> tskit_load eng f = Inl FileNotFoundError \<longrightarrow>
      (\<exists>out. last (fst (run eng p)) = Call_getsize out \<and>
         (\<forall>sz. getsize eng out = Inr sz \<longrightarrow>
            (\<exists>r. snd (run eng p) = Inr r \<and> kc r = None)))) \<and>
   (\<forall>f e. Call_load f \<in> set (fst (run eng p)) \<and> tskit_load eng f = Inl e \<and>
      e \<noteq> FileNotFoundError \<longrightarrow> snd (run eng p) = Inl e)"
  apply (intro conjI allI impI)
    apply (erule run_success_kc)
   apply (erule conjE)
   apply (erule (1) run_truth_absent)
  apply (elim conjE)
  apply (erule (2) run_load_error)
  done

theorem run_kc_distance_witness:
  "(\<exists>r. snd (run (stub_engine False) example_params) = Inr r \<and> kc r = None) \<and>
   (\<exists>r. snd (run (stub_engine True) example_params) = Inr r \<and>
        kc r = kc_distance (stub_engine True) () ()) \<and>
   snd (run ((stub_engine True)\<lparr>tskit_load := (\<lambda>_. Inl (OtherError ''unreadable''))\<rparr>)
          example_params) = Inl (OtherError ''unreadable'')"
proof -
  let ?eng = "(stub_engine True)\<lparr>tskit_load := (\<lambda>_. Inl (OtherError ''unreadable''))\<rparr>"
  have mem: "Call_load ''a.trees'' \<in> set (fst (run ?eng example_params))"
    unfolding run_example_unreadable by simp
  have ld: "tskit_load ?eng ''a.trees'' = Inl (OtherError ''unreadable'')" by simp
  have ne: "OtherError ''unreadable'' \<noteq> FileNotFoundError" by simp
  from run_kc_distance[of ?eng example_params] mem ld ne
  have r2: "snd (run ?eng example_params) = Inl (OtherError ''unreadable'')"
    by blast
  obtain r0 where r0: "snd (run (stub_engine False) example_params) = Inr r0"
    by (simp add: run_example_absent)
  obtain r1 where r1: "snd (run (stub_engine True) example_params) = Inr r1"
    by (simp add: run_example_present)
  from run_kc_distance[of "stub_engine False" example_params] r0
  have "kc r0 = None" by (auto simp: stub_engine_calls)
  moreover from run_kc_distance[of "stub_engine True" example_params] r1
  have "kc r1 = kc_distance (stub_engine True) () ()" by (auto simp: stub_engine_calls)
  ultimately show ?thesis using r0 r1 r2 by blast
qed

text \<open>
  Claim C10. Sample data without a path: the run raises before any engine call is made,
  and the exception is \<^verbatim>\<open>UnboundLocalError\<close> whenever the median and the precision were
  computed without raising, and the exception of that computation otherwise. A run that
  succeeds has sample data with a path that ends in \<open>.samples\<close>.
\<close>

theorem run_without_path:
  "(path (sample_data p) = None \<longrightarrow>
      fst (run eng p) = [] \<and> (\<exists>e. snd (run eng p) = Inl e) \<and>
      (\<forall>x. select_precision_fl (arith eng) (rec_rate p) (ma_mut_rate p) (ms_mut_rate p)
             (precision p) = Inr x
          \<longrightarrow> snd (run eng p) = Inl UnboundLocalError) \<and>
      (\<forall>e. select_precision_fl (arith eng) (rec_rate p) (ma_mut_rate p) (ms_mut_rate p)
             (precision p) = Inl e
          \<longrightarrow> snd (run eng p) = Inl e)) \<and>
   (\<forall>r. snd (run eng p) = Inr r \<longrightarrow>
      (\<exists>pth. path (sample_data p) = Some pth \<and> endswith pth ''.samples''))"
  by (rule run_path_facts)

theorem run_without_path_witness:
  "run (stub_engine False)
     (example_params\<lparr>sample_data := (sample_data example_params)\<lparr>path := None\<rparr>\<rparr>) =
   ([], Inl UnboundLocalError)"
proof -
  let ?p = "example_params\<lparr>sample_data := (sample_data example_params)\<lparr>path := None\<rparr>\<rparr>"
  have sel: "select_precision_fl (arith (stub_engine False)) (rec_rate ?p) (ma_mut_rate ?p)
      (ms_mut_rate ?p) (precision ?p) = Inr (1 / 100, 6)"
    using example_precision by (simp add: example_params_def stub_engine_calls)
  have pth: "path (sample_data ?p) = None" by simp
  from run_without_path[of ?p "stub_engine False"] pth sel
  have "fst (run (stub_engine False) ?p) = [] \<and>
      snd (run (stub_engine False) ?p) = Inl UnboundLocalError"
    by blast
  then show ?thesis by (simp add: prod_eq_iff)
qed

text \<open>
  The claim as it is written names the unbound name as the exception of every run without
  a path. With a zero rate and no precision override the run raises earlier, in the
  precision selection.
\<close>

theorem run_without_path_zero_rate:
  "run (stub_engine False)
     \<lparr>sample_data = \<lparr>path = None, sites_position = [0, 100],
                      sites_inference = [1, 1], sequence_length = 10000\<rparr>,
      rec_rate = [0, 0], ma_mut_rate = 1 / 10, ms_mut_rate = 1 / 100,
      precision = None, num_threads = 0\<rparr> = ([], Inl OverflowError)"
  by (simp add: run_def stub_engine_calls select_precision_fl_def np_quantile_fl_def np_min_def
        np_log10_fl_def exact_ops_def Let_def)

end
